theory Spec2Isabelle
  imports Complex_Main
begin

section \<open>Common types\<close>

text \<open>
  Timestamps are Django datetimes, counted here in microseconds (the resolution of a
  Python datetime) since an arbitrary epoch; a \<^verbatim>\<open>timedelta\<close> is a number of
  microseconds. Strings are \<^typ>\<open>string\<close>; the models below read them character by
  character, as the Python does, over the ASCII range.
\<close>

type_synonym timestamp = nat

definition minutes :: "nat \<Rightarrow> nat" where
  "minutes n = n * 60 * 1000000"

definition hours :: "nat \<Rightarrow> nat" where
  "hours n = n * 3600 * 1000000"

text \<open>
  Every exception and every error response of the views is a value. A DRF
  \<^verbatim>\<open>ValidationError\<close> carries the dictionary of field errors (field name, message).
\<close>

datatype error =
    ValidationError "(string \<times> string) list"
  | BadRequest string
  | NotFound string
  | Gone string
  | IntegrityError
  | AttributeError
  | MultipleObjectsReturned
  | DoesNotExist

section \<open>CAPTCHA tokens (apps/comments/models.py, class CaptchaToken)\<close>

record captcha =
  challenge :: string
  solution :: string
  captcha_created_at :: timestamp
  used_at :: "timestamp option"
  captcha_ip_address :: string

text \<open>The table is keyed by the \<^verbatim>\<open>token\<close> column, which is declared unique.\<close>

type_synonym captcha_table = "string \<rightharpoonup> captcha"

text \<open>
  \<^verbatim>\<open>is_expired\<close>: \<^verbatim>\<open>timezone.now() > self.created_at + timedelta(minutes=10)\<close>.
\<close>

definition is_expired :: "timestamp \<Rightarrow> captcha \<Rightarrow> bool" where
  "is_expired now c \<longleftrightarrow> now > captcha_created_at c + minutes 10"

definition is_used :: "captcha \<Rightarrow> bool" where
  "is_used c \<longleftrightarrow> used_at c \<noteq> None"

text \<open>
  \<^verbatim>\<open>CommentSerializer.validate_captcha_token\<close>: the result is the message of the
  \<^verbatim>\<open>serializers.ValidationError\<close> raised, or the value.
\<close>

definition validate_captcha_token :: "captcha_table \<Rightarrow> timestamp \<Rightarrow> string \<Rightarrow> string + string" where
  "validate_captcha_token tbl now v =
     (case tbl v of
        None \<Rightarrow> Inl ''Invalid CAPTCHA token''
      | Some c \<Rightarrow>
          if is_expired now c then Inl ''CAPTCHA has expired''
          else if is_used c then Inl ''CAPTCHA has already been used''
          else Inr v)"

text \<open>
  The view \<^verbatim>\<open>captcha_image\<close> (apps/comments/views.py). The image itself is drawn by
  \<^verbatim>\<open>CaptchaService.generate_image\<close> with PIL and random noise; it is the parameter
  \<open>generate_image\<close> here.
\<close>

definition captcha_image ::
  "(string \<Rightarrow> 'img) \<Rightarrow> captcha_table \<Rightarrow> timestamp \<Rightarrow> string \<Rightarrow> error + 'img" where
  "captcha_image generate_image tbl now token =
     (case tbl token of
        None \<Rightarrow> Inl (NotFound ''Invalid CAPTCHA token'')
      | Some c \<Rightarrow>
          if is_expired now c then Inl (Gone ''CAPTCHA has expired'')
          else Inr (generate_image (challenge c)))"

section \<open>Threaded comments (apps/comments)\<close>

subsection \<open>Rows and tables\<close>

text \<open>
  The columns of \<^verbatim>\<open>Comment\<close> that the moderation and threading code reads or
  writes. \<open>parent\<close> is the foreign key (the primary key of the parent row). The
  author columns, \<^verbatim>\<open>sanitized_text\<close>, \<^verbatim>\<open>user_agent\<close> and the attached files
  play no part in the operations below and are left out.
\<close>

record comment =
  comment_id :: nat
  comment_text :: string
  parent :: "nat option"
  created_at :: timestamp
  ip_address :: "string option"
  is_active :: bool
  is_moderated :: bool
  moderated_by :: "nat option"
  moderated_at :: "timestamp option"
  likes_count :: nat
  replies_count :: nat

text \<open>\<^verbatim>\<open>CommentLike\<close> of this application has no \<^verbatim>\<open>is_active\<close> column.\<close>

record comment_like =
  like_comment :: nat
  like_ip_address :: string

record db =
  comment_rows :: "comment list"
  next_comment_id :: nat
  like_rows :: "comment_like list"
  captcha_rows :: captcha_table

text \<open>\<^verbatim>\<open>Comment.objects.filter(id=i).first()\<close>, the row with primary key \<open>i\<close>.\<close>

definition get_comment :: "comment list \<Rightarrow> nat \<Rightarrow> comment option" where
  "get_comment rows i = find (\<lambda>c. comment_id c = i) rows"

text \<open>\<^verbatim>\<open>comment.save()\<close>: the row with the same primary key is overwritten.\<close>

definition save_comment :: "comment list \<Rightarrow> comment \<Rightarrow> comment list" where
  "save_comment rows c = map (\<lambda>r. if comment_id r = comment_id c then c else r) rows"

text \<open>\<^verbatim>\<open>save(update_fields=['replies_count'])\<close> writes one column of one row.\<close>

definition save_replies_count :: "comment list \<Rightarrow> nat \<Rightarrow> nat \<Rightarrow> comment list" where
  "save_replies_count rows pid n =
     map (\<lambda>r. if comment_id r = pid then r\<lparr>replies_count := n\<rparr> else r) rows"

definition save_likes_count :: "comment list \<Rightarrow> nat \<Rightarrow> nat \<Rightarrow> comment list" where
  "save_likes_count rows cid n =
     map (\<lambda>r. if comment_id r = cid then r\<lparr>likes_count := n\<rparr> else r) rows"

text \<open>The reverse relations \<^verbatim>\<open>comment.replies\<close> and \<^verbatim>\<open>comment.likes\<close>.\<close>

definition replies :: "comment list \<Rightarrow> nat \<Rightarrow> comment list" where
  "replies rows pid = filter (\<lambda>c. parent c = Some pid) rows"

definition likes :: "comment_like list \<Rightarrow> nat \<Rightarrow> comment_like list" where
  "likes ls cid = filter (\<lambda>l. like_comment l = cid) ls"

subsection \<open>Depth of a comment\<close>

text \<open>
  \<^verbatim>\<open>Comment.get_depth\<close> walks the parent chain with a \<^verbatim>\<open>while\<close> loop:
  \<^verbatim>\<open>depth = 0; parent = self.parent; while parent: depth += 1; parent = parent.parent\<close>.
  The loop need not end on a table whose parent links form a cycle, so the walk is a
  partial function: \<open>None\<close> is "does not return". Following a foreign key to a row
  that is not there raises \<^verbatim>\<open>DoesNotExist\<close>.
\<close>

partial_function (option) depth_walk ::
  "comment list \<Rightarrow> nat option \<Rightarrow> nat \<Rightarrow> (error + nat) option" where
  "depth_walk rows p depth =
     (case p of
        None \<Rightarrow> Some (Inr depth)
      | Some i \<Rightarrow>
          (case get_comment rows i of
             None \<Rightarrow> Some (Inl DoesNotExist)
           | Some pc \<Rightarrow> depth_walk rows (parent pc) (depth + 1)))"

declare depth_walk.simps [code]

definition get_depth :: "comment list \<Rightarrow> comment \<Rightarrow> (error + nat) option" where
  "get_depth rows c = depth_walk rows (parent c) 0"

text \<open>\<^verbatim>\<open>can_reply\<close>: \<^verbatim>\<open>return self.get_depth() < 3\<close>.\<close>

definition can_reply :: "comment list \<Rightarrow> comment \<Rightarrow> (error + bool) option" where
  "can_reply rows c = map_option (map_sum id (\<lambda>d. d < 3)) (get_depth rows c)"

subsection \<open>Signals (apps/comments/signals.py)\<close>

text \<open>
  \<^verbatim>\<open>comment_post_save\<close>: when a row was created and has a parent, the parent's
  \<^verbatim>\<open>replies_count\<close> becomes \<^verbatim>\<open>parent.replies.filter(is_active=True).count()\<close>.
  (Cache invalidation, indexing and the WebSocket push do not touch the tables.) The
  handlers are taken to be connected, as the \<^verbatim>\<open>receiver\<close> decorators ask.
\<close>

definition comment_post_save :: "comment list \<Rightarrow> comment \<Rightarrow> bool \<Rightarrow> comment list" where
  "comment_post_save rows instance created =
     (if created then
        (case parent instance of
           None \<Rightarrow> rows
         | Some p \<Rightarrow> save_replies_count rows p (length (filter is_active (replies rows p))))
      else rows)"

text \<open>
  \<^verbatim>\<open>comment_like_post_save\<close>: \<^verbatim>\<open>likes_count = instance.comment.likes.count()\<close>.
\<close>

definition comment_like_post_save ::
  "comment list \<Rightarrow> comment_like list \<Rightarrow> comment_like \<Rightarrow> bool \<Rightarrow> comment list" where
  "comment_like_post_save rows ls instance created =
     (if created
      then save_likes_count rows (like_comment instance) (length (likes ls (like_comment instance)))
      else rows)"

subsection \<open>Creating a comment (apps/comments/serializers.py, views.py)\<close>

text \<open>
  A request as the serializer sees it. \<open>builtin_field_errors\<close> is the outcome of the
  validators that Django REST framework itself runs on the fields (name pattern, e-mail
  and URL syntax, required and blank checks): library code, taken as given.
  \<open>captcha_token\<close> and \<open>captcha_solution\<close> are the values handed to the serializer's
  own methods.
\<close>

record comment_request =
  req_text :: string
  req_parent :: "nat option"
  captcha_token :: string
  captcha_solution :: string
  client_ip :: "string option"
  builtin_field_errors :: "(string \<times> string) list"

text \<open>
  Field-level validation (\<^verbatim>\<open>to_internal_value\<close>): the errors of all fields are
  collected into one \<^verbatim>\<open>ValidationError\<close>. The \<^verbatim>\<open>parent\<close> field is a primary-key
  field over \<^verbatim>\<open>Comment.objects.all()\<close> and yields the parent row;
  \<^verbatim>\<open>validate_captcha_token\<close> is the serializer's own hook for its field.
\<close>

definition to_internal_value ::
  "db \<Rightarrow> timestamp \<Rightarrow> comment_request \<Rightarrow> error + comment option" where
  "to_internal_value d now req =
     (let parent_errors =
            (case req_parent req of
               None \<Rightarrow> []
             | Some p \<Rightarrow>
                 (case get_comment (comment_rows d) p of
                    None \<Rightarrow> [(''parent'', ''Invalid pk - object does not exist.'')]
                  | Some _ \<Rightarrow> []));
          captcha_errors =
            (case validate_captcha_token (captcha_rows d) now (captcha_token req) of
               Inl msg \<Rightarrow> [(''captcha_token'', msg)]
             | Inr _ \<Rightarrow> []);
          errors = builtin_field_errors req @ parent_errors @ captcha_errors
      in if errors = []
         then Inr (case req_parent req of None \<Rightarrow> None | Some p \<Rightarrow> get_comment (comment_rows d) p)
         else Inl (ValidationError errors))"

text \<open>
  \<^verbatim>\<open>CommentSerializer.validate\<close>: the solution is compared with the stored one, then
  \<^verbatim>\<open>if parent and not parent.can_reply\<close> rejects a parent at the nesting limit.
\<close>

definition validate ::
  "db \<Rightarrow> comment_request \<Rightarrow> comment option \<Rightarrow> (error + unit) option" where
  "validate d req parent_obj =
     (let captcha_check =
            (if captcha_token req \<noteq> [] \<and> captcha_solution req \<noteq> [] then
               (case captcha_rows d (captcha_token req) of
                  None \<Rightarrow> Inl (ValidationError [(''captcha_token'', ''Invalid CAPTCHA token'')])
                | Some c \<Rightarrow>
                    if solution c \<noteq> captcha_solution req
                    then Inl (ValidationError
                                [(''captcha_solution'', ''Incorrect CAPTCHA solution'')])
                    else Inr ())
             else Inr ())
      in case captcha_check of
           Inl e \<Rightarrow> Some (Inl e)
         | Inr _ \<Rightarrow>
             (case parent_obj of
                None \<Rightarrow> Some (Inr ())
              | Some pc \<Rightarrow>
                  (case can_reply (comment_rows d) pc of
                     None \<Rightarrow> None
                   | Some (Inl e) \<Rightarrow> Some (Inl e)
                   | Some (Inr True) \<Rightarrow> Some (Inr ())
                   | Some (Inr False) \<Rightarrow>
                       Some (Inl (ValidationError
                         [(''parent'',
                           ''Cannot reply to this comment (max nesting level reached)'')])))))"

text \<open>
  \<^verbatim>\<open>CommentSerializer.create\<close>: insert the row (which fires \<^verbatim>\<open>comment_post_save\<close>),
  mark the CAPTCHA as used, then set the parent's counter to
  \<^verbatim>\<open>comment.parent.replies.count()\<close>.
\<close>

definition create :: "db \<Rightarrow> timestamp \<Rightarrow> comment_request \<Rightarrow> comment option \<Rightarrow> db \<times> comment" where
  "create d now req parent_obj =
     (let comment = \<lparr>comment_id = next_comment_id d, comment_text = req_text req,
                     parent = map_option comment_id parent_obj, created_at = now,
                     ip_address = client_ip req, is_active = True, is_moderated = False,
                     moderated_by = None, moderated_at = None,
                     likes_count = 0, replies_count = 0\<rparr>;
          rows1 = comment_post_save (comment_rows d @ [comment]) comment True;
          captchas =
            (case captcha_rows d (captcha_token req) of
               None \<Rightarrow> captcha_rows d
             | Some c \<Rightarrow> (captcha_rows d)(captcha_token req \<mapsto> c\<lparr>used_at := Some now\<rparr>));
          rows2 =
            (case parent comment of
               None \<Rightarrow> rows1
             | Some p \<Rightarrow> save_replies_count rows1 p (length (replies rows1 p)))
      in (d\<lparr>comment_rows := rows2, next_comment_id := Suc (next_comment_id d),
            captcha_rows := captchas\<rparr>, comment))"

text \<open>
  \<^verbatim>\<open>CommentListCreateView.post\<close>: \<^verbatim>\<open>is_valid(raise_exception=True)\<close>, then
  \<^verbatim>\<open>serializer.save()\<close>. (The class defines \<^verbatim>\<open>post\<close> twice; the later, undecorated
  definition is the one in effect.)
\<close>

definition post_comment ::
  "db \<Rightarrow> timestamp \<Rightarrow> comment_request \<Rightarrow> (error + db \<times> comment) option" where
  "post_comment d now req =
     (case to_internal_value d now req of
        Inl e \<Rightarrow> Some (Inl e)
      | Inr parent_obj \<Rightarrow>
          (case validate d req parent_obj of
             None \<Rightarrow> None
           | Some (Inl e) \<Rightarrow> Some (Inl e)
           | Some (Inr _) \<Rightarrow> Some (Inr (create d now req parent_obj))))"

text \<open>
  \<^verbatim>\<open>CommentReplyCreateView.post\<close>: the parent must be an active row that can be
  replied to; then the request, with \<^verbatim>\<open>parent\<close> set, goes through the same serializer.
\<close>

definition post_reply ::
  "db \<Rightarrow> timestamp \<Rightarrow> nat \<Rightarrow> comment_request \<Rightarrow> (error + db \<times> comment) option" where
  "post_reply d now parent_id req =
     (case find (\<lambda>c. comment_id c = parent_id \<and> is_active c) (comment_rows d) of
        None \<Rightarrow> Some (Inl (NotFound ''Parent comment not found''))
      | Some parent_comment \<Rightarrow>
          (case can_reply (comment_rows d) parent_comment of
             None \<Rightarrow> None
           | Some (Inl e) \<Rightarrow> Some (Inl e)
           | Some (Inr False) \<Rightarrow>
               Some (Inl (BadRequest
                 ''Cannot reply to this comment (max nesting level reached)''))
           | Some (Inr True) \<Rightarrow> post_comment d now (req\<lparr>req_parent := Some parent_id\<rparr>)))"

subsection \<open>Moderation (apps/comments/services.py)\<close>

text \<open>\<^verbatim>\<open>CommentService.mark_comment_as_spam\<close>.\<close>

definition mark_comment_as_spam :: "db \<Rightarrow> timestamp \<Rightarrow> nat \<Rightarrow> nat option \<Rightarrow> db \<times> bool" where
  "mark_comment_as_spam d now cid moderator_user =
     (case get_comment (comment_rows d) cid of
        None \<Rightarrow> (d, False)
      | Some comment \<Rightarrow>
          (d\<lparr>comment_rows :=
               save_comment (comment_rows d)
                 (comment\<lparr>is_active := False, is_moderated := True,
                          moderated_by := moderator_user, moderated_at := Some now\<rparr>)\<rparr>,
           True))"

subsection \<open>Liking a comment (apps/comments/views.py, serializers.py)\<close>

text \<open>
  \<^verbatim>\<open>CommentLikeCreateView.post\<close> wants an active comment;
  \<^verbatim>\<open>CommentLikeSerializer.create\<close> refuses a second like from the same address,
  inserts the like (which fires \<^verbatim>\<open>comment_like_post_save\<close>) and stores
  \<^verbatim>\<open>comment.likes.count()\<close>.
\<close>

definition post_like :: "db \<Rightarrow> nat \<Rightarrow> string \<Rightarrow> error + db \<times> comment_like" where
  "post_like d cid ip =
     (case find (\<lambda>c. comment_id c = cid \<and> is_active c) (comment_rows d) of
        None \<Rightarrow> Inl (NotFound ''Comment not found'')
      | Some comment \<Rightarrow>
          if list_ex (\<lambda>l. like_comment l = cid \<and> like_ip_address l = ip) (like_rows d)
          then Inl (ValidationError
                      [(''non_field_errors'', ''You have already liked this comment'')])
          else
            (let like = \<lparr>like_comment = cid, like_ip_address = ip\<rparr>;
                 ls = like_rows d @ [like];
                 rows1 = comment_like_post_save (comment_rows d) ls like True;
                 rows2 = save_likes_count rows1 cid (length (likes ls cid))
             in Inr (d\<lparr>comment_rows := rows2, like_rows := ls\<rparr>, like)))"

subsection \<open>Issuing and purging CAPTCHAs\<close>

text \<open>Python's \<^verbatim>\<open>str\<close> on a non-negative integer.\<close>

definition digit :: "nat \<Rightarrow> char" where
  "digit n = ''0123456789'' ! n"

fun str :: "nat \<Rightarrow> string" where
  "str n = (if n < 10 then [digit n] else str (n div 10) @ [digit (n mod 10)])"

text \<open>
  \<^verbatim>\<open>CaptchaSerializer.create\<close>. The random draws (\<open>num1\<close>, \<open>num2\<close> from 1 to 10 and
  the 32-character token) are inputs. \<^verbatim>\<open>token\<close> is a unique column: inserting a
  token that is already there raises \<^verbatim>\<open>IntegrityError\<close>.
\<close>

definition generate_captcha ::
  "db \<Rightarrow> timestamp \<Rightarrow> nat \<Rightarrow> nat \<Rightarrow> string \<Rightarrow> string \<Rightarrow> error + db" where
  "generate_captcha d now num1 num2 token ip =
     (let challenge_text = str num1 @ '' + '' @ str num2 @ '' = ?'';
          solution_text = str (num1 + num2)
      in case captcha_rows d token of
           Some _ \<Rightarrow> Inl IntegrityError
         | None \<Rightarrow>
             Inr (d\<lparr>captcha_rows := (captcha_rows d)(token \<mapsto>
                    \<lparr>challenge = challenge_text, solution = solution_text,
                     captcha_created_at = now, used_at = None,
                     captcha_ip_address = ip\<rparr>)\<rparr>))"

text \<open>
  The periodic task \<^verbatim>\<open>cleanup_expired_captchas\<close> deletes the rows with
  \<^verbatim>\<open>created_at < now - timedelta(hours=1)\<close>, written here without subtraction. The
  number of deleted rows, which the task only logs and returns, is not kept.
\<close>

definition cleanup_expired_captchas :: "db \<Rightarrow> timestamp \<Rightarrow> db" where
  "cleanup_expired_captchas d now =
     d\<lparr>captcha_rows :=
         (\<lambda>t. case captcha_rows d t of
                 None \<Rightarrow> None
               | Some c \<Rightarrow> if captcha_created_at c + hours 1 < now then None else Some c)\<rparr>"

subsection \<open>Histories of requests\<close>

text \<open>
  A history is a list of requests and tasks served one after the other. A request that
  is answered with an error leaves the tables as they were; a request that does not
  return ends the history without a result.
\<close>

datatype operation =
    PostComment timestamp comment_request
  | PostReply timestamp nat comment_request
  | GenerateCaptcha timestamp nat nat string string
  | CleanupCaptchas timestamp
  | MarkAsSpam timestamp nat "nat option"

fun apply_operation :: "db \<Rightarrow> operation \<Rightarrow> db option" where
  "apply_operation d (PostComment now r) =
     (case post_comment d now r of
        None \<Rightarrow> None | Some (Inl e) \<Rightarrow> Some d | Some (Inr (d', c)) \<Rightarrow> Some d')"
| "apply_operation d (PostReply now pid r) =
     (case post_reply d now pid r of
        None \<Rightarrow> None | Some (Inl e) \<Rightarrow> Some d | Some (Inr (d', c)) \<Rightarrow> Some d')"
| "apply_operation d (GenerateCaptcha now num1 num2 token ip) =
     (case generate_captcha d now num1 num2 token ip of Inl e \<Rightarrow> Some d | Inr d' \<Rightarrow> Some d')"
| "apply_operation d (CleanupCaptchas now) = Some (cleanup_expired_captchas d now)"
| "apply_operation d (MarkAsSpam now cid moderator) =
     Some (fst (mark_comment_as_spam d now cid moderator))"

fun run :: "db \<Rightarrow> operation list \<Rightarrow> db option" where
  "run d [] = Some d"
| "run d (x # xs) = (case apply_operation d x of None \<Rightarrow> None | Some d' \<Rightarrow> run d' xs)"

text \<open>The token a CAPTCHA request draws, if the operation is one.\<close>

fun drawn_token :: "operation \<Rightarrow> string option" where
  "drawn_token (GenerateCaptcha now num1 num2 token ip) = Some token"
| "drawn_token _ = None"

section \<open>Flat comments (comments)\<close>

text \<open>
  The second comments application has no threads; a like carries an \<^verbatim>\<open>is_active\<close>
  flag and \<^verbatim>\<open>likes_count\<close> is a property computed from the like rows. The pair
  (\<^verbatim>\<open>comment\<close>, \<^verbatim>\<open>ip\<close>) of a like is declared unique.
\<close>

record flat_comment =
  flat_id :: nat
  author :: string
  email :: string
  content :: string
  flat_created_at :: timestamp
  flat_is_active :: bool
  flat_ip_address :: string

record flat_like =
  liked_comment :: nat
  liker_ip_address :: string
  liker_user_agent :: string
  like_is_active :: bool

text \<open>
  The Django cache: a key holds a value until its expiry time; \<^verbatim>\<open>cache.get(key, 0)\<close>
  answers the default once the entry has expired.
\<close>

type_synonym cache = "string \<rightharpoonup> nat \<times> timestamp"

record flat_db =
  flat_comments :: "flat_comment list"
  next_flat_id :: nat
  flat_likes :: "flat_like list"
  rate_cache :: cache

definition cache_get :: "cache \<Rightarrow> timestamp \<Rightarrow> string \<Rightarrow> nat \<Rightarrow> nat" where
  "cache_get c now key fallback =
     (case c key of
        None \<Rightarrow> fallback
      | Some (v, expires) \<Rightarrow> if now < expires then v else fallback)"

definition cache_set :: "cache \<Rightarrow> timestamp \<Rightarrow> string \<Rightarrow> nat \<Rightarrow> nat \<Rightarrow> cache" where
  "cache_set c now key v timeout_seconds = c(key \<mapsto> (v, now + timeout_seconds * 1000000))"

subsection \<open>Creating a comment (comments/views.py)\<close>

text \<open>
  A request after \<^verbatim>\<open>is_valid\<close>: \<open>validation_errors\<close> is what the field validators
  of the serializer found.
\<close>

record flat_request =
  req_author :: string
  req_email :: string
  req_content :: string
  validation_errors :: "(string \<times> string) list"

text \<open>\<^verbatim>\<open>serializer.save()\<close>: the row is inserted with its request metadata.\<close>

definition save_flat_comment ::
  "flat_db \<Rightarrow> timestamp \<Rightarrow> string \<Rightarrow> flat_request \<Rightarrow> flat_db" where
  "save_flat_comment d now ip req =
     d\<lparr>flat_comments := flat_comments d @
          [\<lparr>flat_id = next_flat_id d, author = req_author req, email = req_email req,
            content = req_content req, flat_created_at = now, flat_is_active = True,
            flat_ip_address = ip\<rparr>],
       next_flat_id := Suc (next_flat_id d)\<rparr>"

text \<open>
  \<^verbatim>\<open>CommentListCreateView.perform_create\<close>: "max 5 comments per IP per hour". The
  name \<^verbatim>\<open>serializers\<close> in this module is bound by
  \<^verbatim>\<open>from analytics import serializers\<close>, a module without a
  \<^verbatim>\<open>ValidationError\<close>, so the \<^verbatim>\<open>raise\<close> statement of the limit branch ends in
  an \<^verbatim>\<open>AttributeError\<close>; either way the request is refused before anything is saved.
\<close>

definition perform_create ::
  "flat_db \<Rightarrow> timestamp \<Rightarrow> string \<Rightarrow> flat_request \<Rightarrow> error + flat_db" where
  "perform_create d now ip req =
     (let cache_key = ''comment_rate_limit_'' @ ip;
          current_count = cache_get (rate_cache d) now cache_key 0
      in if current_count \<ge> 5 then Inl AttributeError
         else
           (let d' = save_flat_comment d now ip req
            in Inr (d'\<lparr>rate_cache :=
                        cache_set (rate_cache d') now cache_key (current_count + 1) 3600\<rparr>)))"

text \<open>The \<^verbatim>\<open>POST\<close> handler: validation, then \<^verbatim>\<open>perform_create\<close>.\<close>

definition post_flat_comment ::
  "flat_db \<Rightarrow> timestamp \<Rightarrow> string \<Rightarrow> flat_request \<Rightarrow> error + flat_db" where
  "post_flat_comment d now ip req =
     (if validation_errors req \<noteq> [] then Inl (ValidationError (validation_errors req))
      else perform_create d now ip req)"

text \<open>
  A run of submissions (time, client address, request), each answered before the next
  arrives; the answer list records which ones were accepted.
\<close>

fun serve :: "flat_db \<Rightarrow> (timestamp \<times> string \<times> flat_request) list \<Rightarrow> flat_db \<times> bool list" where
  "serve d [] = (d, [])"
| "serve d ((now, ip, req) # rest) =
     (case post_flat_comment d now ip req of
        Inl e \<Rightarrow> (case serve d rest of (d', answers) \<Rightarrow> (d', False # answers))
      | Inr d1 \<Rightarrow> (case serve d1 rest of (d', answers) \<Rightarrow> (d', True # answers)))"

subsection \<open>Likes (comments/views.py, comments/models.py)\<close>

text \<open>The property \<^verbatim>\<open>Comment.likes_count\<close>: \<^verbatim>\<open>self.likes.filter(is_active=True).count()\<close>.\<close>

definition flat_likes_count :: "flat_like list \<Rightarrow> nat \<Rightarrow> nat" where
  "flat_likes_count ls cid =
     length (filter (\<lambda>l. liked_comment l = cid \<and> like_is_active l) ls)"

text \<open>
  \<^verbatim>\<open>CommentSerializer.get_is_liked\<close>: is there an active like of this comment from
  this address.
\<close>

definition get_is_liked :: "flat_like list \<Rightarrow> nat \<Rightarrow> string \<Rightarrow> bool" where
  "get_is_liked ls cid ip \<longleftrightarrow>
     list_ex (\<lambda>l. liked_comment l = cid \<and> liker_ip_address l = ip \<and> like_is_active l) ls"

text \<open>
  \<^verbatim>\<open>toggle_comment_like\<close>. \<^verbatim>\<open>get_object_or_404\<close> wants an active comment;
  \<^verbatim>\<open>get_or_create\<close> finds the like of (comment, address), creates it (active) when
  there is none and raises when there are several; a like that was found is flipped
  and saved. The response carries \<^verbatim>\<open>liked\<close> and \<^verbatim>\<open>likes_count\<close>.
\<close>

definition toggle_comment_like ::
  "flat_db \<Rightarrow> nat \<Rightarrow> string \<Rightarrow> string \<Rightarrow> error + flat_db \<times> bool \<times> nat" where
  "toggle_comment_like d cid ip user_agent =
     (case find (\<lambda>c. flat_id c = cid \<and> flat_is_active c) (flat_comments d) of
        None \<Rightarrow> Inl (NotFound ''No Comment matches the given query.'')
      | Some comment \<Rightarrow>
          (case filter (\<lambda>l. liked_comment l = cid \<and> liker_ip_address l = ip)
                  (flat_likes d) of
             [] \<Rightarrow>
               (let like = \<lparr>liked_comment = cid, liker_ip_address = ip,
                             liker_user_agent = user_agent, like_is_active = True\<rparr>;
                    ls = flat_likes d @ [like]
                in Inr (d\<lparr>flat_likes := ls\<rparr>, like_is_active like, flat_likes_count ls cid))
           | [found] \<Rightarrow>
               (let like = found\<lparr>like_is_active := \<not> like_is_active found\<rparr>;
                    ls = map (\<lambda>l. if liked_comment l = cid \<and> liker_ip_address l = ip
                                    then like else l) (flat_likes d)
                in Inr (d\<lparr>flat_likes := ls\<rparr>, like_is_active like, flat_likes_count ls cid))
           | _ \<Rightarrow> Inl MultipleObjectsReturned))"

section \<open>Spam scoring (apps/comments/services.py, tasks.py)\<close>

text \<open>
  The string operations the scorer uses, on ASCII text: \<^verbatim>\<open>c.isupper()\<close>,
  \<^verbatim>\<open>text.lower()\<close>, \<^verbatim>\<open>keyword in text\<close> and \<^verbatim>\<open>text.count(sub)\<close>, which counts
  occurrences from left to right without overlap.
\<close>

definition isupper :: "char \<Rightarrow> bool" where
  "isupper c \<longleftrightarrow> c \<in> set ''ABCDEFGHIJKLMNOPQRSTUVWXYZ''"

definition lower_char :: "char \<Rightarrow> char" where
  "lower_char c =
     (case map_of (zip ''ABCDEFGHIJKLMNOPQRSTUVWXYZ'' ''abcdefghijklmnopqrstuvwxyz'') c of
        None \<Rightarrow> c
      | Some l \<Rightarrow> l)"

definition lower :: "string \<Rightarrow> string" where
  "lower t = map lower_char t"

fun startswith :: "string \<Rightarrow> string \<Rightarrow> bool" where
  "startswith t [] = True"
| "startswith [] (k # ks) = False"
| "startswith (c # t) (k # ks) = (c = k \<and> startswith t ks)"

fun contains :: "string \<Rightarrow> string \<Rightarrow> bool" where
  "contains [] k = (k = [])"
| "contains (c # t) k = (startswith (c # t) k \<or> contains t k)"

fun count_sub :: "string \<Rightarrow> string \<Rightarrow> nat" where
  "count_sub t [] = length t + 1"
| "count_sub [] (k # ks) = 0"
| "count_sub (c # t) (k # ks) =
     (if startswith (c # t) (k # ks) then 1 + count_sub (drop (length ks) t) (k # ks)
      else count_sub t (k # ks))"

text \<open>
  \<^verbatim>\<open>SpamDetectionService.get_spam_score\<close>. Of its four parameters only
  \<^verbatim>\<open>comment_text\<close> is read. The Python adds the integer weights and the product
  \<^verbatim>\<open>caps_ratio * 30\<close> in binary floating point; the model computes the same sum over
  the rationals.
\<close>

definition spam_keywords :: "string list" where
  "spam_keywords = [''casino'', ''poker'', ''viagra'', ''cialis'', ''lottery'', ''winner'',
                    ''click here'', ''free money'', ''make money'', ''work from home'']"

definition keyword_count :: "string \<Rightarrow> nat" where
  "keyword_count t = length (filter (\<lambda>keyword. contains (lower t) keyword) spam_keywords)"

definition caps_ratio :: "string \<Rightarrow> rat" where
  "caps_ratio t = of_nat (length (filter isupper t)) / of_nat (max (length t) 1)"

definition get_spam_score :: "string \<Rightarrow> rat" where
  "get_spam_score t =
     (let score = of_nat (keyword_count t * 15)
                  + of_nat (count_sub t ''http'' * 10)
                  + caps_ratio t * 30
                  + (if length t < 10 \<or> length t > 2000 then 10 else 0)
      in min score 100)"

text \<open>
  The periodic task \<^verbatim>\<open>detect_and_moderate_spam\<close>: every active, unmoderated comment
  of the last hour whose score exceeds 80 is hidden and saved; the result is the number
  of comments moderated.
\<close>

definition detect_and_moderate_spam :: "db \<Rightarrow> timestamp \<Rightarrow> db \<times> nat" where
  "detect_and_moderate_spam d now =
     (let recent_comments =
            filter (\<lambda>c. is_active c \<and> \<not> is_moderated c \<and> now \<le> created_at c + hours 1)
              (comment_rows d);
          spam = filter (\<lambda>c. get_spam_score (comment_text c) > 80) recent_comments
      in (d\<lparr>comment_rows :=
               fold (\<lambda>c rows. save_comment rows
                       (c\<lparr>is_active := False, is_moderated := True,
                          moderated_at := Some now\<rparr>))
                 spam (comment_rows d)\<rparr>,
          length spam))"

section \<open>Text sanitizing (apps/comments/models.py)\<close>

subsection \<open>The regular expression of the validity check\<close>

text \<open>
  \<^verbatim>\<open>is_valid_xhtml\<close> finds the tags with
  \<^verbatim>\<open>re.findall(r'<(/?)([a-zA-Z][a-zA-Z0-9]*)[^>]*>', text)\<close>. A match starts at a
  \<^verbatim>\<open><\<close>, takes an optional \<^verbatim>\<open>/\<close>, a letter, the longest run of letters and
  digits, and everything up to the next \<^verbatim>\<open>>\<close>; the scan goes on behind the match, or
  one character on where nothing matches. \<open>match_tag\<close> tries a match at the head of a
  text and yields the two groups (is there a slash, the name), the matched text and
  the text behind it.
\<close>

definition is_alpha :: "char \<Rightarrow> bool" where
  "is_alpha c \<longleftrightarrow>
     c \<in> set ''abcdefghijklmnopqrstuvwxyzABCDEFGHIJKLMNOPQRSTUVWXYZ''"

definition is_alnum :: "char \<Rightarrow> bool" where
  "is_alnum c \<longleftrightarrow> is_alpha c \<or> c \<in> set ''0123456789''"

definition match_tag :: "string \<Rightarrow> ((bool \<times> string \<times> string) \<times> string) option" where
  "match_tag t =
     (case t of
        [] \<Rightarrow> None
      | c # r \<Rightarrow>
          if c \<noteq> CHR ''<'' then None
          else
            (let closing = (case r of [] \<Rightarrow> False | s # _ \<Rightarrow> s = CHR ''/'');
                 r1 = (if closing then tl r else r)
             in case r1 of
                  [] \<Rightarrow> None
                | a # _ \<Rightarrow>
                    if \<not> is_alpha a then None
                    else
                      (let name = takeWhile is_alnum r1;
                           after = dropWhile is_alnum r1;
                           attrs = takeWhile (\<lambda>x. x \<noteq> CHR ''>'') after
                       in case dropWhile (\<lambda>x. x \<noteq> CHR ''>'') after of
                            [] \<Rightarrow> None
                          | _ # rest \<Rightarrow>
                              Some ((closing, name,
                                     ''<'' @ (if closing then ''/'' else []) @ name @ attrs @ ''>''),
                                    rest))))"

function scan_tags :: "string \<Rightarrow> (bool \<times> string \<times> string) list" where
  "scan_tags [] = []"
| "scan_tags (c # r) =
     (case match_tag (c # r) of
        Some (m, rest) \<Rightarrow> m # scan_tags rest
      | None \<Rightarrow> scan_tags r)"
  by pat_completeness auto
termination
proof (relation "measure length")
  show "wf (measure length)" by simp
next
  fix c r x m rest
  assume "match_tag (c # r) = Some x" and "(m, rest) = x"
  then have m: "match_tag (c # r) = Some (m, rest)" by simp
  have dw: "length ys < length xs" if "dropWhile P xs = y # ys"
    for P and xs ys :: string and y
    using length_dropWhile_le [of P xs] that by simp
  have dw2: "length ys < length xs" if "dropWhile P (dropWhile Q xs) = y # ys"
    for P Q and xs ys :: string and y
    using dw [OF that] length_dropWhile_le [of Q xs] by simp
  from m have "length rest < length (c # r)"
    by (auto simp: match_tag_def Let_def split: if_splits list.splits dest!: dw dw2)
  then show "(rest, c # r) \<in> measure length" by simp
next
  fix c r
  show "(r, c # r) \<in> measure length" by simp
qed

text \<open>\<^verbatim>\<open>re.findall\<close> returns the list of the two groups.\<close>

definition re_findall :: "string \<Rightarrow> (bool \<times> string) list" where
  "re_findall text = map (\<lambda>(closing, name, matched). (closing, name)) (scan_tags text)"

subsection \<open>Python's find, slices and endswith\<close>

text \<open>
  \<^verbatim>\<open>text.find(sub, start)\<close> answers -1 when there is no occurrence; a negative
  \<^verbatim>\<open>start\<close> or slice bound counts from the end of the text, and bounds beyond the
  text are cut off.
\<close>

fun find_sub :: "string \<Rightarrow> string \<Rightarrow> nat option" where
  "find_sub [] sub = (if sub = [] then Some 0 else None)"
| "find_sub (c # t) sub =
     (if startswith (c # t) sub then Some 0 else map_option Suc (find_sub t sub))"

definition py_find :: "string \<Rightarrow> string \<Rightarrow> int \<Rightarrow> int" where
  "py_find text sub start =
     (let n = int (length text);
          s = (if start < 0 then max 0 (n + start) else start)
      in if s > n then - 1
         else (case find_sub (drop (nat s) text) sub of
                 None \<Rightarrow> - 1
               | Some i \<Rightarrow> s + int i))"

definition py_slice :: "string \<Rightarrow> int \<Rightarrow> int \<Rightarrow> string" where
  "py_slice text a b =
     (let n = int (length text);
          a' = (if a < 0 then max 0 (n + a) else min a n);
          b' = (if b < 0 then max 0 (n + b) else min b n)
      in take (nat (b' - a')) (drop (nat a') text))"

definition endswith :: "string \<Rightarrow> string \<Rightarrow> bool" where
  "endswith text suffix \<longleftrightarrow>
     length suffix \<le> length text \<and> drop (length text - length suffix) text = suffix"

subsection \<open>The validity check and the sanitizer\<close>

text \<open>
  The loop of \<^verbatim>\<open>is_valid_xhtml\<close> over the tags found, with the stack of open tags
  (top first). An opening tag is pushed unless the text from the first occurrence of
  \<^verbatim>\<open><name\<close> (the name in lower case) to the next \<^verbatim>\<open>>\<close> ends with \<^verbatim>\<open>/>\<close>:
  \<^verbatim>\<open>text[text.find(f'<{tag_name}'):text.find('>', text.find(f'<{tag_name}')) + 1].endswith('/>')\<close>.
  Nothing in the loop raises, so the \<^verbatim>\<open>except\<close> branch is never taken.
\<close>

definition first_is_self_closing :: "string \<Rightarrow> string \<Rightarrow> bool" where
  "first_is_self_closing text tag_name =
     endswith
       (py_slice text (py_find text (''<'' @ tag_name) 0)
          (py_find text ''>'' (py_find text (''<'' @ tag_name) 0) + 1))
       ''/>''"

fun validate_tags :: "string \<Rightarrow> (bool \<times> string) list \<Rightarrow> string list \<Rightarrow> bool" where
  "validate_tags text [] tag_stack = (tag_stack = [])"
| "validate_tags text ((is_closing, name) # tags) tag_stack =
     (let tag_name = lower name
      in if is_closing then
           (case tag_stack of
              [] \<Rightarrow> False
            | opened # others \<Rightarrow>
                if opened \<noteq> tag_name then False else validate_tags text tags others)
         else if \<not> first_is_self_closing text tag_name
              then validate_tags text tags (tag_name # tag_stack)
              else validate_tags text tags tag_stack)"

definition is_valid_xhtml :: "string \<Rightarrow> bool" where
  "is_valid_xhtml text = validate_tags text (re_findall text) []"

text \<open>
  The allow-list that \<^verbatim>\<open>sanitize_text\<close> hands to \<^verbatim>\<open>bleach.clean\<close>.
\<close>

definition allowed_tags :: "string list" where
  "allowed_tags = [''i'', ''strong'', ''code'', ''a'']"

definition allowed_attributes :: "(string \<times> string list) list" where
  "allowed_attributes = [(''a'', [''href'', ''title''])]"

text \<open>
  \<^verbatim>\<open>Comment.sanitize_text\<close>. \<^verbatim>\<open>bleach.clean\<close> (called with the text, the tags, the
  attributes and \<^verbatim>\<open>strip=True\<close>) and Django's \<^verbatim>\<open>strip_tags\<close> are library functions
  outside the repository: they are the parameters \<open>bleach_clean\<close> and \<open>strip_tags\<close>.
\<close>

definition sanitize_text ::
  "(string \<Rightarrow> string list \<Rightarrow> (string \<times> string list) list \<Rightarrow> bool \<Rightarrow> string)
     \<Rightarrow> (string \<Rightarrow> string) \<Rightarrow> string \<Rightarrow> string" where
  "sanitize_text bleach_clean strip_tags text =
     (let cleaned = bleach_clean text allowed_tags allowed_attributes True
      in if \<not> is_valid_xhtml cleaned then strip_tags cleaned else cleaned)"

text \<open>
  The check in the specification's words, for comparison: every opening tag has a
  matching, properly nested closing tag. All opening tags are pushed here; a tag
  written \<^verbatim>\<open><br/>\<close> is not told apart.
\<close>

fun properly_nested :: "(bool \<times> string) list \<Rightarrow> string list \<Rightarrow> bool" where
  "properly_nested [] tag_stack = (tag_stack = [])"
| "properly_nested ((is_closing, name) # tags) tag_stack =
     (if is_closing then
        (case tag_stack of
           [] \<Rightarrow> False
         | opened # others \<Rightarrow> opened = lower name \<and> properly_nested tags others)
      else properly_nested tags (lower name # tag_stack))"

section \<open>The nesting invariant\<close>

text \<open>The nesting invariant of a table: every stored comment has a depth, and it is at most 3.\<close>

definition depth_bounded :: "comment list \<Rightarrow> bool" where
  "depth_bounded rows \<longleftrightarrow>
     list_all (\<lambda>c. case get_depth rows c of Some (Inr k) \<Rightarrow> k \<le> 3 | _ \<Rightarrow> False) rows"

section \<open>Sample tables\<close>

text \<open>A CAPTCHA issued at time 0 for the challenge "3 + 4 = ?", and a request that solves it.\<close>

definition sample_captcha :: captcha where
  "sample_captcha = \<lparr>challenge = ''3 + 4 = ?'', solution = ''7'', captcha_created_at = 0,
                     used_at = None, captcha_ip_address = ''10.0.0.1''\<rparr>"

definition sample_db :: db where
  "sample_db = \<lparr>comment_rows = [], next_comment_id = 1, like_rows = [],
                captcha_rows = [''tok'' \<mapsto> sample_captcha]\<rparr>"

definition sample_request :: comment_request where
  "sample_request = \<lparr>req_text = ''This is a great article, thanks!'', req_parent = None,
                     captcha_token = ''tok'', captcha_solution = ''7'',
                     client_ip = Some ''10.0.0.1'', builtin_field_errors = []\<rparr>"

text \<open>A history: a new CAPTCHA, a replay of the solved one, a purge, a moderation.\<close>

definition sample_history :: "operation list" where
  "sample_history =
     [GenerateCaptcha 6 2 3 ''other'' ''10.0.0.2'', PostComment 7 sample_request,
      CleanupCaptchas 8, MarkAsSpam 9 1 None]"

text \<open>
  A thread of two comments (comment 2 replies to comment 1), the same thread with the
  root hidden, and a request that replies to comment 1.
\<close>

definition sample_root :: comment where
  "sample_root = \<lparr>comment_id = 1, comment_text = ''First comment of the thread'',
                  parent = None, created_at = 1, ip_address = Some ''10.0.0.1'',
                  is_active = True, is_moderated = False, moderated_by = None,
                  moderated_at = None, likes_count = 0, replies_count = 1\<rparr>"

definition sample_child :: comment where
  "sample_child = \<lparr>comment_id = 2, comment_text = ''A reply to the first comment'',
                   parent = Some 1, created_at = 2, ip_address = Some ''10.0.0.2'',
                   is_active = True, is_moderated = False, moderated_by = None,
                   moderated_at = None, likes_count = 0, replies_count = 0\<rparr>"

definition sample_thread_db :: db where
  "sample_thread_db = \<lparr>comment_rows = [sample_root, sample_child], next_comment_id = 3,
                       like_rows = [], captcha_rows = [''tok'' \<mapsto> sample_captcha]\<rparr>"

definition sample_hidden_db :: db where
  "sample_hidden_db = \<lparr>comment_rows = [sample_root\<lparr>is_active := False, replies_count := 0\<rparr>],
                       next_comment_id = 2, like_rows = [],
                       captcha_rows = [''tok'' \<mapsto> sample_captcha]\<rparr>"

definition sample_reply :: comment_request where
  "sample_reply = sample_request\<lparr>req_parent := Some 1\<rparr>"

text \<open>
  The flat application with one comment, liked from one address, and an empty cache;
  six and eleven valid submissions from one address, one minute apart.
\<close>

definition sample_flat_db :: flat_db where
  "sample_flat_db =
     \<lparr>flat_comments = [\<lparr>flat_id = 1, author = ''Al'', email = ''al@example.org'',
                         content = ''This is a great article, thanks!'',
                         flat_created_at = 0, flat_is_active = True,
                         flat_ip_address = ''10.0.0.1''\<rparr>],
      next_flat_id = 2,
      flat_likes = [\<lparr>liked_comment = 1, liker_ip_address = ''10.0.0.7'',
                      liker_user_agent = ''ua'', like_is_active = True\<rparr>],
      rate_cache = Map.empty\<rparr>"

definition sample_flat_request :: flat_request where
  "sample_flat_request = \<lparr>req_author = ''Al'', req_email = ''al@example.org'',
                          req_content = ''This is a great article, thanks!'',
                          validation_errors = []\<rparr>"

definition submissions_at :: "nat list \<Rightarrow> (timestamp \<times> string \<times> flat_request) list" where
  "submissions_at ms = map (\<lambda>m. (minutes m, ''10.0.0.1'', sample_flat_request)) ms"

definition six_submissions :: "(timestamp \<times> string \<times> flat_request) list" where
  "six_submissions = submissions_at [0, 1, 2, 3, 4, 5]"

definition eleven_submissions :: "(timestamp \<times> string \<times> flat_request) list" where
  "eleven_submissions = submissions_at [0, 1, 2, 3, 4, 5, 6, 7, 8, 9, 10]"

text \<open>Two comment texts and a table holding a fresh comment with each.\<close>

definition shouted_text :: string where
  "shouted_text = ''VIAGRAHTTPHTTPHTTP''"

definition link_farm_text :: string where
  "link_farm_text = ''viagra http http http http http http http http http''"

definition spam_comment :: "nat \<Rightarrow> string \<Rightarrow> comment" where
  "spam_comment i t = \<lparr>comment_id = i, comment_text = t, parent = None, created_at = 0,
                       ip_address = Some ''10.0.0.9'', is_active = True,
                       is_moderated = False, moderated_by = None, moderated_at = None,
                       likes_count = 0, replies_count = 0\<rparr>"

definition sample_spam_db :: db where
  "sample_spam_db = \<lparr>comment_rows = [spam_comment 1 shouted_text, spam_comment 2 link_farm_text],
                     next_comment_id = 3, like_rows = [], captcha_rows = Map.empty\<rparr>"

section \<open>CAPTCHA validation\<close>

lemma post_comment_success:
  assumes "post_comment d now r = Some (Inr (d', c))"
  shows "\<exists>row. captcha_rows d (captcha_token r) = Some row \<and> used_at row = None
           \<and> \<not> is_expired now row
           \<and> captcha_rows d' = (captcha_rows d)(captcha_token r \<mapsto> row\<lparr>used_at := Some now\<rparr>)"
proof -
  from assms obtain pobj where tiv: "to_internal_value d now r = Inr pobj"
    and cr: "create d now r pobj = (d', c)"
    by (auto simp: post_comment_def split: sum.splits option.splits)
  from tiv have "\<exists>v. validate_captcha_token (captcha_rows d) now (captcha_token r) = Inr v"
    by (auto simp: to_internal_value_def Let_def split: sum.splits if_splits)
  then obtain row where row: "captcha_rows d (captcha_token r) = Some row"
    "used_at row = None" "\<not> is_expired now row"
    by (auto simp: validate_captcha_token_def is_used_def split: option.splits if_splits)
  from cr row have "captcha_rows d' = (captcha_rows d)(captcha_token r \<mapsto> row\<lparr>used_at := Some now\<rparr>)"
    by (auto simp: create_def Let_def)
  with row show ?thesis by blast
qed

lemma post_comment_captcha_error:
  assumes "validate_captcha_token (captcha_rows d) now (captcha_token r) = Inl msg"
  shows "\<exists>errs. post_comment d now r = Some (Inl (ValidationError errs))
           \<and> (''captcha_token'', msg) \<in> set errs"
  using assms by (simp add: post_comment_def to_internal_value_def Let_def)

lemma post_reply_success:
  assumes "post_reply d now pid r = Some (Inr res)"
  shows "post_comment d now (r\<lparr>req_parent := Some pid\<rparr>) = Some (Inr res)"
  using assms
  by (auto simp: post_reply_def split: option.splits sum.splits bool.splits)

section \<open>The CAPTCHA image endpoint\<close>

text \<open>
  Claim C10. For a token that exists and is within its 10-minute lifetime the image
  endpoint returns the challenge image, whether or not the token has been used; it
  answers 410 exactly for an expired token and 404 exactly for an unknown one.
\<close>

theorem captcha_image_ignores_used:
  "(tbl token = Some c \<and> \<not> is_expired now c
      \<longrightarrow> captcha_image gen tbl now token = Inr (gen (challenge c)))
   \<and> (captcha_image gen tbl now token = Inl (Gone ''CAPTCHA has expired'')
      \<longleftrightarrow> (\<exists>c. tbl token = Some c \<and> is_expired now c))
   \<and> (captcha_image gen tbl now token = Inl (NotFound ''Invalid CAPTCHA token'')
      \<longleftrightarrow> tbl token = None)
   \<and> (\<forall>e. captcha_image gen tbl now token = Inl e
      \<longrightarrow> e = Gone ''CAPTCHA has expired'' \<or> e = NotFound ''Invalid CAPTCHA token'')"
  by (auto simp: captcha_image_def split: option.splits)

theorem captcha_image_ignores_used_witness:
  "captcha_image (\<lambda>s. s)
     [''tok'' \<mapsto> \<lparr>challenge = ''3 + 4 = ?'', solution = ''7'', captcha_created_at = 0,
                  used_at = Some 5, captcha_ip_address = ''10.0.0.1''\<rparr>]
     (minutes 10) ''tok'' = Inr ''3 + 4 = ?''"
  using captcha_image_ignores_used
    [of "[''tok'' \<mapsto> \<lparr>challenge = ''3 + 4 = ?'', solution = ''7'', captcha_created_at = 0,
                  used_at = Some 5, captcha_ip_address = ''10.0.0.1''\<rparr>]"
        "''tok''"
        "\<lparr>challenge = ''3 + 4 = ?'', solution = ''7'', captcha_created_at = 0,
                  used_at = Some 5, captcha_ip_address = ''10.0.0.1''\<rparr>"
        "minutes 10" "\<lambda>s. s"]
  by (simp add: is_expired_def)


text \<open>
  Claim C4. A validation attempt made more than 10 minutes after the token's
  \<^verbatim>\<open>created_at\<close> fails and is reported as expired, whatever solution is submitted and
  whether or not the token was used before: the field hook answers "CAPTCHA has
  expired", the create endpoint returns a validation error carrying that message, and
  the reply endpoint creates nothing.
\<close>

theorem expired_captcha_rejected:
  assumes "captcha_rows d (captcha_token r) = Some c"
      and "now > captcha_created_at c + minutes 10"
  shows "validate_captcha_token (captcha_rows d) now (captcha_token r) = Inl ''CAPTCHA has expired''
       \<and> (\<exists>errs. post_comment d now r = Some (Inl (ValidationError errs))
                 \<and> (''captcha_token'', ''CAPTCHA has expired'') \<in> set errs)
       \<and> (\<forall>pid res. post_reply d now pid r \<noteq> Some (Inr res))"
proof -
  have v: "validate_captcha_token (captcha_rows d) now (captcha_token r) = Inl ''CAPTCHA has expired''"
    using assms by (simp add: validate_captcha_token_def is_expired_def)
  have pc: "\<exists>errs. post_comment d now r = Some (Inl (ValidationError errs))
                 \<and> (''captcha_token'', ''CAPTCHA has expired'') \<in> set errs"
    using v by (rule post_comment_captcha_error)
  have pr: "post_reply d now pid r \<noteq> Some (Inr res)" for pid res
  proof
    assume "post_reply d now pid r = Some (Inr res)"
    then have ok: "post_comment d now (r\<lparr>req_parent := Some pid\<rparr>) = Some (Inr res)"
      by (rule post_reply_success)
    have "validate_captcha_token (captcha_rows d) now (captcha_token (r\<lparr>req_parent := Some pid\<rparr>))
            = Inl ''CAPTCHA has expired''"
      using v by simp
    from post_comment_captcha_error [OF this] ok show False by auto
  qed
  from v pc pr show ?thesis by blast
qed

theorem expired_captcha_rejected_witness:
  "validate_captcha_token (captcha_rows sample_db) (minutes 10 + 1) ''tok''
     = Inl ''CAPTCHA has expired''
   \<and> (\<exists>errs. post_comment sample_db (minutes 10 + 1) sample_request
                = Some (Inl (ValidationError errs)))"
proof -
  have h1: "captcha_rows sample_db (captcha_token sample_request) = Some sample_captcha"
    by (simp add: sample_db_def sample_request_def)
  have h2: "minutes 10 + 1 > captcha_created_at sample_captcha + minutes 10"
    by (simp add: sample_captcha_def)
  from expired_captcha_rejected [OF h1 h2] show ?thesis
    by (auto simp: sample_request_def)
qed


lemma post_comment_keeps_spent:
  assumes "post_comment d now r = Some (Inr (d', c))"
      and "used_at row \<noteq> None"
      and "captcha_rows d t = None \<or> captcha_rows d t = Some row"
  shows "captcha_rows d' t = captcha_rows d t"
proof -
  from post_comment_success [OF assms(1)] obtain row' where
    r: "captcha_rows d (captcha_token r) = Some row'" "used_at row' = None"
    and upd: "captcha_rows d' = (captcha_rows d)(captcha_token r \<mapsto> row'\<lparr>used_at := Some now\<rparr>)"
    by blast
  from r assms(2,3) have "captcha_token r \<noteq> t" by auto
  with upd show ?thesis by simp
qed

lemma apply_operation_keeps_spent:
  assumes "apply_operation d x = Some d'"
      and "drawn_token x \<noteq> Some t"
      and "used_at row \<noteq> None"
      and "captcha_rows d t = None \<or> captcha_rows d t = Some row"
  shows "captcha_rows d' t = None \<or> captcha_rows d' t = Some row"
proof (cases x)
  case (PostComment now r)
  show ?thesis
  proof (cases "post_comment d now r")
    case None
    with PostComment assms(1) show ?thesis by simp
  next
    case (Some res)
    show ?thesis
    proof (cases res)
      case (Inl e)
      with Some PostComment assms(1,4) show ?thesis by auto
    next
      case (Inr p)
      obtain d1 c where p: "p = (d1, c)" by (cases p)
      with Inr Some PostComment assms(1) have "d' = d1" by simp
      with post_comment_keeps_spent [of d now r d1 c row t] Some Inr p assms(3,4)
      show ?thesis by auto
    qed
  qed
next
  case (PostReply now pid r)
  show ?thesis
  proof (cases "post_reply d now pid r")
    case None
    with PostReply assms(1) show ?thesis by simp
  next
    case (Some res)
    show ?thesis
    proof (cases res)
      case (Inl e)
      with Some PostReply assms(1,4) show ?thesis by auto
    next
      case (Inr p)
      obtain d1 c where p: "p = (d1, c)" by (cases p)
      with Inr Some PostReply assms(1) have d': "d' = d1" by simp
      from Some Inr p have "post_comment d now (r\<lparr>req_parent := Some pid\<rparr>) = Some (Inr (d1, c))"
        by (simp add: post_reply_success)
      from post_comment_keeps_spent [OF this assms(3,4)] d' assms(4)
      show ?thesis by auto
    qed
  qed
next
  case (GenerateCaptcha now num1 num2 token ip)
  with assms show ?thesis
    by (auto simp: generate_captcha_def Let_def split: option.splits)
next
  case (CleanupCaptchas now)
  with assms show ?thesis
    by (auto simp: cleanup_expired_captchas_def split: if_splits)
next
  case (MarkAsSpam now cid moderator)
  with assms show ?thesis
    by (auto simp: mark_comment_as_spam_def split: option.splits)
qed

lemma run_keeps_spent:
  assumes "run d xs = Some d'"
      and "\<forall>x \<in> set xs. drawn_token x \<noteq> Some t"
      and "used_at row \<noteq> None"
      and "captcha_rows d t = None \<or> captcha_rows d t = Some row"
  shows "captcha_rows d' t = None \<or> captcha_rows d' t = Some row"
  using assms
proof (induction xs arbitrary: d)
  case Nil
  then show ?case by simp
next
  case (Cons x xs)
  from Cons.prems(1) obtain d1 where step: "apply_operation d x = Some d1"
    and rest: "run d1 xs = Some d'"
    by (auto split: option.splits)
  from Cons.prems(2) have nx: "drawn_token x \<noteq> Some t" by simp
  have "captcha_rows d1 t = None \<or> captcha_rows d1 t = Some row"
    by (rule apply_operation_keeps_spent [OF step nx Cons.prems(3,4)])
  with Cons.IH [OF rest _ Cons.prems(3)] Cons.prems(2) show ?case by simp
qed

lemma spent_token_fails:
  assumes "captcha_rows d t = None \<or> (\<exists>row. captcha_rows d t = Some row \<and> used_at row \<noteq> None)"
      and "captcha_token r = t"
  shows "\<exists>errs. post_comment d now r = Some (Inl (ValidationError errs))"
proof -
  from assms have "\<exists>msg. validate_captcha_token (captcha_rows d) now (captcha_token r) = Inl msg"
    by (auto simp: validate_captcha_token_def is_used_def)
  then obtain msg where "validate_captcha_token (captcha_rows d) now (captcha_token r) = Inl msg" ..
  from post_comment_captcha_error [OF this] show ?thesis by blast
qed

text \<open>
  Claim C3. Once a submission has validated a token (its \<^verbatim>\<open>used_at\<close> goes from null
  to the time of that submission), every later submission with that token fails, also
  with the stored solution: after any history of further requests and tasks, in which
  the random generator does not draw the same token string for a new row, the row is
  either purged or still carries the \<^verbatim>\<open>used_at\<close> of the first success, the create
  endpoint answers with a validation error and the reply endpoint creates nothing.
\<close>

theorem captcha_single_use:
  assumes "post_comment d now r = Some (Inr (d1, c))"
      and "run d1 ops = Some d2"
      and "\<forall>x \<in> set ops. drawn_token x \<noteq> Some (captcha_token r)"
      and "captcha_token r' = captcha_token r"
  shows "(\<exists>row. captcha_rows d (captcha_token r) = Some row \<and> used_at row = None
              \<and> captcha_rows d1 (captcha_token r) = Some (row\<lparr>used_at := Some now\<rparr>))
       \<and> (captcha_rows d2 (captcha_token r) = None
            \<or> captcha_rows d2 (captcha_token r) = captcha_rows d1 (captcha_token r))
       \<and> (\<exists>errs. post_comment d2 now' r' = Some (Inl (ValidationError errs)))
       \<and> (\<forall>pid res. post_reply d2 now' pid r' \<noteq> Some (Inr res))"
proof -
  from post_comment_success [OF assms(1)] obtain row where
    row: "captcha_rows d (captcha_token r) = Some row" "used_at row = None"
    and d1: "captcha_rows d1 (captcha_token r) = Some (row\<lparr>used_at := Some now\<rparr>)"
    by auto
  have used: "used_at (row\<lparr>used_at := Some now\<rparr>) \<noteq> None" by simp
  from d1 have "captcha_rows d1 (captcha_token r) = None
                  \<or> captcha_rows d1 (captcha_token r) = Some (row\<lparr>used_at := Some now\<rparr>)"
    by simp
  from run_keeps_spent [OF assms(2,3) used this]
  have d2: "captcha_rows d2 (captcha_token r) = None
              \<or> captcha_rows d2 (captcha_token r) = Some (row\<lparr>used_at := Some now\<rparr>)" .
  then have spent: "captcha_rows d2 (captcha_token r) = None
     \<or> (\<exists>row'. captcha_rows d2 (captcha_token r) = Some row' \<and> used_at row' \<noteq> None)"
    by auto
  have fail: "\<exists>errs. post_comment d2 now' q = Some (Inl (ValidationError errs))"
    if "captcha_token q = captcha_token r" for q
    using spent that by (rule spent_token_fails)
  have reply: "post_reply d2 now' pid r' \<noteq> Some (Inr res)" for pid res
  proof
    assume "post_reply d2 now' pid r' = Some (Inr res)"
    then have "post_comment d2 now' (r'\<lparr>req_parent := Some pid\<rparr>) = Some (Inr res)"
      by (rule post_reply_success)
    moreover from assms(4) have "captcha_token (r'\<lparr>req_parent := Some pid\<rparr>) = captcha_token r"
      by simp
    from fail [OF this] obtain errs where
      "post_comment d2 now' (r'\<lparr>req_parent := Some pid\<rparr>) = Some (Inl (ValidationError errs))" ..
    ultimately show False by simp
  qed
  from row d1 d2 fail [OF assms(4)] reply show ?thesis by auto
qed


theorem captcha_single_use_witness:
  "\<exists>d1 c d2. post_comment sample_db 5 sample_request = Some (Inr (d1, c))
     \<and> run d1 sample_history = Some d2
     \<and> (\<exists>errs. post_comment d2 9 sample_request = Some (Inl (ValidationError errs)))"
proof -
  obtain d1 c where dc: "create sample_db 5 sample_request None = (d1, c)"
    by (cases "create sample_db 5 sample_request None")
  have h1: "post_comment sample_db 5 sample_request = Some (Inr (d1, c))"
    unfolding dc [symmetric]
    by (simp add: post_comment_def to_internal_value_def validate_def
        validate_captcha_token_def is_expired_def is_used_def minutes_def
        sample_db_def sample_request_def sample_captcha_def Let_def)
  have "run d1 sample_history \<noteq> None"
    using dc
    by (auto simp add: sample_history_def post_comment_def to_internal_value_def
        validate_def create_def validate_captcha_token_def is_expired_def is_used_def
        minutes_def hours_def sample_db_def sample_request_def sample_captcha_def
        comment_post_save_def Let_def generate_captcha_def cleanup_expired_captchas_def
        mark_comment_as_spam_def get_comment_def save_comment_def digit_def
        split: option.splits sum.splits)
  then obtain d2 where h2: "run d1 sample_history = Some d2" by auto
  have h3: "\<forall>x \<in> set sample_history. drawn_token x \<noteq> Some (captcha_token sample_request)"
    by (simp add: sample_history_def sample_request_def)
  from captcha_single_use [OF h1 h2 h3 refl, of 9] h1 h2 show ?thesis by blast
qed


section \<open>Threads and counters\<close>

lemma depth_walk_None [simp]: "depth_walk rows None depth = Some (Inr depth)"
  by (subst depth_walk.simps) simp

lemma depth_walk_Some [simp]:
  "depth_walk rows (Some i) depth =
     (case get_comment rows i of
        None \<Rightarrow> Some (Inl DoesNotExist)
      | Some pc \<Rightarrow> depth_walk rows (parent pc) (depth + 1))"
  by (subst depth_walk.simps) simp

lemma save_likes_count_sets:
  assumes mem: "c \<in> set (save_likes_count rows cid n)" and cid: "comment_id c = cid"
  shows "likes_count c = n"
proof -
  from mem have "c \<in> (\<lambda>r. if comment_id r = cid then r\<lparr>likes_count := n\<rparr> else r) ` set rows"
    unfolding save_likes_count_def by (simp only: set_map)
  then obtain r where
    c: "c = (if comment_id r = cid then r\<lparr>likes_count := n\<rparr> else r)"
    by (rule imageE)
  show ?thesis
  proof (cases "comment_id r = cid")
    case True
    with c have "c = r\<lparr>likes_count := n\<rparr>" by simp
    then show ?thesis by simp
  next
    case False
    with c have "c = r" by simp
    with False cid show ?thesis by simp
  qed
qed

lemma post_like_rows:
  assumes "post_like d cid ip = Inr (d', l)"
  shows "\<exists>rows1. comment_rows d'
           = save_likes_count rows1 cid (length (likes (like_rows d') cid))"
proof (cases "find (\<lambda>c. comment_id c = cid \<and> is_active c) (comment_rows d)")
  case None
  with assms show ?thesis by (simp add: post_like_def)
next
  case (Some comment)
  show ?thesis
  proof (cases "list_ex (\<lambda>l. like_comment l = cid \<and> like_ip_address l = ip) (like_rows d)")
    case True
    with Some assms show ?thesis by (simp add: post_like_def)
  next
    case False
    let ?like = "\<lparr>like_comment = cid, like_ip_address = ip\<rparr>"
    let ?rows1 = "comment_like_post_save (comment_rows d) (like_rows d @ [?like]) ?like True"
    from False Some assms have "d' = d\<lparr>comment_rows :=
          save_likes_count ?rows1 cid (length (likes (like_rows d @ [?like]) cid)),
          like_rows := like_rows d @ [?like]\<rparr>"
      by (auto simp: post_like_def Let_def)
    then have "comment_rows d'
           = save_likes_count ?rows1 cid (length (likes (like_rows d') cid))"
      by simp
    then show ?thesis ..
  qed
qed

text \<open>A like leaves the liked comment with \<^verbatim>\<open>likes_count\<close> equal to the number of its likes.\<close>

lemma post_like_counts:
  assumes "post_like d cid ip = Inr (d', l)"
      and "c \<in> set (comment_rows d')" and "comment_id c = cid"
  shows "likes_count c = length (likes (like_rows d') cid)"
proof -
  from post_like_rows [OF assms(1)] obtain rows1 where
    "comment_rows d' = save_likes_count rows1 cid (length (likes (like_rows d') cid))" ..
  with assms(2) have "c \<in> set (save_likes_count rows1 cid (length (likes (like_rows d') cid)))"
    by (simp only:)
  from save_likes_count_sets [OF this assms(3)] show ?thesis .
qed

text \<open>
  Claim C2, at a failing input. The create endpoint is sent a comment whose
  \<^verbatim>\<open>parent\<close> is comment 1, which is hidden (\<^verbatim>\<open>is_active\<close> false): the serializer
  checks only \<^verbatim>\<open>can_reply\<close>, so the comment is created as a child of the hidden
  comment. The reply endpoint, given the same parent, answers 404.
\<close>

theorem hidden_parent_accepts_child:
  "map_option is_active (get_comment (comment_rows sample_hidden_db) 1) = Some False
   \<and> (case post_comment sample_hidden_db 20 sample_reply of
        Some (Inr (d', c)) \<Rightarrow>
          parent c = Some 1 \<and> get_comment (comment_rows d') (comment_id c) = Some c
          \<and> length (comment_rows d') = Suc (length (comment_rows sample_hidden_db))
      | _ \<Rightarrow> False)
   \<and> post_reply sample_hidden_db 20 1 sample_request
        = Some (Inl (NotFound ''Parent comment not found''))"
  by (simp add: post_comment_def post_reply_def to_internal_value_def validate_def
      create_def validate_captcha_token_def is_expired_def is_used_def minutes_def
      sample_hidden_db_def sample_reply_def sample_request_def sample_captcha_def
      sample_root_def comment_post_save_def Let_def get_comment_def can_reply_def
      get_depth_def save_replies_count_def replies_def)

text \<open>
  Claim C1, at a failing input. In the thread of comments 1 and 2, comment 2 is marked
  as spam: comment 1 keeps \<^verbatim>\<open>replies_count\<close> 1 while it has no active child left.
  A reply to comment 1 is then created: the serializer stores
  \<^verbatim>\<open>parent.replies.count()\<close>, which is 2, while one child is active.
\<close>

theorem replies_count_drifts:
  "(case mark_comment_as_spam sample_thread_db 10 2 None of
      (d1, ok) \<Rightarrow>
        ok
        \<and> map_option replies_count (get_comment (comment_rows d1) 1) = Some 1
        \<and> length (filter is_active (replies (comment_rows d1) 1)) = 0
        \<and> (case post_comment d1 20 sample_reply of
              Some (Inr (d2, c)) \<Rightarrow>
                map_option replies_count (get_comment (comment_rows d2) 1) = Some 2
                \<and> length (filter is_active (replies (comment_rows d2) 1)) = 1
            | _ \<Rightarrow> False))"
  by (simp add: mark_comment_as_spam_def post_comment_def to_internal_value_def
      validate_def create_def validate_captcha_token_def is_expired_def is_used_def
      minutes_def sample_thread_db_def sample_reply_def sample_request_def
      sample_captcha_def sample_root_def sample_child_def comment_post_save_def Let_def
      get_comment_def save_comment_def can_reply_def get_depth_def
      save_replies_count_def replies_def)


section \<open>Likes\<close>

lemma filter_none_map:
  "filter P xs = [] \<Longrightarrow> map (\<lambda>x. if P x then b else x) xs = xs"
  by (induction xs) (auto split: if_splits)

lemma filter_single_map:
  "filter P xs = [a] \<Longrightarrow> P b \<Longrightarrow> filter P (map (\<lambda>x. if P x then b else x) xs) = [b]"
  by (induction xs) (auto split: if_splits simp: filter_none_map)

lemma filter_single_restore:
  "filter P xs = [a] \<Longrightarrow> map (\<lambda>x. if P x then a else x) xs = xs"
  by (induction xs) (auto split: if_splits simp: filter_none_map)

lemma map_replace_twice:
  "P b \<Longrightarrow> map (\<lambda>x. if P x then a else x) (map (\<lambda>x. if P x then b else x) xs)
     = map (\<lambda>x. if P x then a else x) xs"
  by (induction xs) auto

lemma list_ex_filter_single:
  "filter P xs = [a] \<Longrightarrow> list_ex (\<lambda>x. P x \<and> Q x) xs = Q a"
proof -
  assume a: "filter P xs = [a]"
  have "list_ex (\<lambda>x. P x \<and> Q x) xs = list_ex Q (filter P xs)"
    by (auto simp: list_ex_iff)
  with a show ?thesis by simp
qed

lemma list_ex_filter_none:
  "filter P xs = [] \<Longrightarrow> list_ex (\<lambda>x. P x \<and> Q x) xs = False"
  by (auto simp: list_ex_iff filter_empty_conv)

text \<open>
  Claim C9. Two successive toggles of the like of one comment from one address restore
  what was there before the first: the second toggle succeeds, the comment's
  \<^verbatim>\<open>likes_count\<close> and the liked state of the address are those before the first
  toggle, and when the like row existed before, the tables are the same again (the row
  has its old \<^verbatim>\<open>is_active\<close>). When there was no row, the row made by the first toggle
  stays, inactive.
\<close>

theorem double_toggle_restores:
  assumes "toggle_comment_like d cid ip ua = Inr (d1, liked1, n1)"
  shows "\<exists>d2 liked2 n2. toggle_comment_like d1 cid ip ua' = Inr (d2, liked2, n2)
     \<and> flat_likes_count (flat_likes d2) cid = flat_likes_count (flat_likes d) cid
     \<and> n2 = flat_likes_count (flat_likes d) cid
     \<and> get_is_liked (flat_likes d2) cid ip = get_is_liked (flat_likes d) cid ip
     \<and> liked2 = get_is_liked (flat_likes d) cid ip
     \<and> (filter (\<lambda>l. liked_comment l = cid \<and> liker_ip_address l = ip) (flat_likes d) \<noteq> []
          \<longrightarrow> d2 = d)"
proof -
  let ?P = "\<lambda>l. liked_comment l = cid \<and> liker_ip_address l = ip"
  from assms obtain c where
    c: "find (\<lambda>c. flat_id c = cid \<and> flat_is_active c) (flat_comments d) = Some c"
    by (auto simp: toggle_comment_like_def split: option.splits)
  have liked_eq: "get_is_liked ls cid ip = list_ex (\<lambda>l. ?P l \<and> like_is_active l) ls" for ls
    by (simp add: get_is_liked_def conj_assoc)
  consider (none) "filter ?P (flat_likes d) = []"
    | (one) found where "filter ?P (flat_likes d) = [found]"
    using assms c
    by (auto simp: toggle_comment_like_def split: list.splits)
  then show ?thesis
  proof cases
    case none
    define like where "like = \<lparr>liked_comment = cid, liker_ip_address = ip,
                             liker_user_agent = ua, like_is_active = True\<rparr>"
    let ?off = "like\<lparr>like_is_active := \<not> like_is_active like\<rparr>"
    have Pl: "?P like" and inactive: "\<not> like_is_active ?off"
      by (simp_all add: like_def)
    from assms c none have d1: "d1 = d\<lparr>flat_likes := flat_likes d @ [like]\<rparr>"
      by (simp add: toggle_comment_like_def Let_def like_def)
    have c1: "find (\<lambda>c. flat_id c = cid \<and> flat_is_active c) (flat_comments d1) = Some c"
      using c by (simp add: d1)
    have f1: "filter ?P (flat_likes d1) = [like]"
      using none Pl by (simp add: d1)
    have m: "map (\<lambda>l. if ?P l then ?off else l) (flat_likes d1) = flat_likes d @ [?off]"
      using filter_none_map [OF none, of ?off] Pl by (simp add: d1)
    have t2: "toggle_comment_like d1 cid ip ua'
                = Inr (d1\<lparr>flat_likes := flat_likes d @ [?off]\<rparr>, like_is_active ?off,
                       flat_likes_count (flat_likes d @ [?off]) cid)"
      unfolding toggle_comment_like_def c1 f1 Let_def by (simp only: m list.case option.case)
    have cnt: "flat_likes_count (flat_likes d @ [?off]) cid = flat_likes_count (flat_likes d) cid"
      using inactive by (simp add: flat_likes_count_def)
    have l0: "get_is_liked (flat_likes d) cid ip = False"
      unfolding liked_eq using none by (rule list_ex_filter_none)
    have l2: "get_is_liked (flat_likes d @ [?off]) cid ip = False"
      using l0 inactive by (simp add: get_is_liked_def)
    show ?thesis
      unfolding t2 using cnt l0 l2 inactive none by auto
  next
    case one
    have "found \<in> set (filter ?P (flat_likes d))" using one by simp
    then have Pf: "?P found" by simp
    define like where "like = found\<lparr>like_is_active := \<not> like_is_active found\<rparr>"
    have Pl: "?P like" using Pf by (simp add: like_def)
    have flip2: "like\<lparr>like_is_active := \<not> like_is_active like\<rparr> = found"
      by (simp add: like_def)
    from assms c one
    have d1: "d1 = d\<lparr>flat_likes := map (\<lambda>l. if ?P l then like else l) (flat_likes d)\<rparr>"
      by (auto simp add: toggle_comment_like_def Let_def like_def)
    have c1: "find (\<lambda>c. flat_id c = cid \<and> flat_is_active c) (flat_comments d1) = Some c"
      using c by (simp add: d1)
    have f1: "filter ?P (flat_likes d1) = [like]"
      unfolding d1 using filter_single_map [OF one, of like] Pl by simp
    have m: "map (\<lambda>l. if ?P l then like\<lparr>like_is_active := \<not> like_is_active like\<rparr> else l)
               (flat_likes d1) = flat_likes d"
      unfolding d1 flip2 using map_replace_twice [of ?P like found "flat_likes d"] Pl
        filter_single_restore [OF one] by simp
    have la: "(\<not> like_is_active like) = like_is_active found"
      by (simp add: like_def)
    have t2: "toggle_comment_like d1 cid ip ua'
                = Inr (d1\<lparr>flat_likes := flat_likes d\<rparr>, like_is_active found,
                       flat_likes_count (flat_likes d) cid)"
      unfolding toggle_comment_like_def c1 f1 Let_def by (simp add: m la)
    have same: "d1\<lparr>flat_likes := flat_likes d\<rparr> = d"
      by (simp add: d1)
    have liked: "get_is_liked (flat_likes d) cid ip = like_is_active found"
      unfolding liked_eq using one by (rule list_ex_filter_single)
    show ?thesis
      unfolding t2 using same liked by auto
  qed
qed

theorem double_toggle_restores_witness:
  "\<exists>d1 liked1 n1 n2.
      toggle_comment_like sample_flat_db 1 ''10.0.0.7'' ''ua'' = Inr (d1, liked1, n1)
      \<and> \<not> liked1 \<and> n1 = 0
      \<and> toggle_comment_like d1 1 ''10.0.0.7'' ''ua'' = Inr (sample_flat_db, True, n2)
      \<and> n2 = 1"
proof -
  have "\<exists>d1. toggle_comment_like sample_flat_db 1 ''10.0.0.7'' ''ua'' = Inr (d1, False, 0)"
    by (simp add: toggle_comment_like_def sample_flat_db_def flat_likes_count_def Let_def)
  then obtain d1 where
    h: "toggle_comment_like sample_flat_db 1 ''10.0.0.7'' ''ua'' = Inr (d1, False, 0)" ..
  have e: "filter (\<lambda>l. liked_comment l = 1 \<and> liker_ip_address l = ''10.0.0.7'')
             (flat_likes sample_flat_db) \<noteq> []"
    by (simp add: sample_flat_db_def)
  have n: "flat_likes_count (flat_likes sample_flat_db) 1 = 1"
    and l: "get_is_liked (flat_likes sample_flat_db) 1 ''10.0.0.7''"
    by (simp_all add: sample_flat_db_def flat_likes_count_def get_is_liked_def)
  from double_toggle_restores [OF h, of "''ua''"] e n l h show ?thesis
    by auto
qed

section \<open>Rate limiting\<close>

lemma post_flat_comment_limited:
  assumes "rate_cache d (''comment_rate_limit_'' @ ip) = Some (k, expires)"
      and "t < expires" and "validation_errors r = []"
  shows "post_flat_comment d t ip r =
           (if k \<ge> 5 then Inl AttributeError
            else Inr ((save_flat_comment d t ip r)
                   \<lparr>rate_cache := (rate_cache d)(''comment_rate_limit_'' @ ip \<mapsto> (k + 1, t + hours 1))\<rparr>))"
  using assms
  by (simp add: post_flat_comment_def perform_create_def cache_get_def cache_set_def
      save_flat_comment_def hours_def Let_def)

lemma serve_limited:
  assumes "rate_cache d (''comment_rate_limit_'' @ ip) = Some (k, expires)"
      and "B \<le> expires"
      and "\<forall>(t, a, r) \<in> set subs. a = ip \<and> validation_errors r = [] \<and> t < B \<and> B \<le> t + hours 1"
  shows "snd (serve d subs)
           = replicate (min (5 - k) (length subs)) True
             @ replicate (length subs - (5 - k)) False
       \<and> length (flat_comments (fst (serve d subs)))
           = length (flat_comments d) + min (5 - k) (length subs)"
  using assms
proof (induction subs arbitrary: d k expires)
  case Nil
  then show ?case by simp
next
  case (Cons s subs)
  obtain t a r where s: "s = (t, a, r)" by (cases s)
  from Cons.prems(3) s have a: "a = ip" and v: "validation_errors r = []"
    and t: "t < B" "B \<le> t + hours 1"
    and rest: "\<forall>(t, a, r) \<in> set subs. a = ip \<and> validation_errors r = [] \<and> t < B \<and> B \<le> t + hours 1"
    by auto
  from t Cons.prems(2) have live: "t < expires" by simp
  note step = post_flat_comment_limited [OF Cons.prems(1) live v]
  show ?case
  proof (cases "k \<ge> 5")
    case True
    with step have "post_flat_comment d t ip r = Inl AttributeError" by simp
    moreover from True have "5 - k = 0" by simp
    moreover note Cons.IH [OF Cons.prems(1,2) rest]
    ultimately show ?thesis
      by (auto simp: s a split: prod.splits)
  next
    case False
    define d1 where "d1 = (save_flat_comment d t ip r)
        \<lparr>rate_cache := (rate_cache d)(''comment_rate_limit_'' @ ip \<mapsto> (k + 1, t + hours 1))\<rparr>"
    from False step have p: "post_flat_comment d t ip r = Inr d1" by (simp add: d1_def)
    have c1: "rate_cache d1 (''comment_rate_limit_'' @ ip) = Some (k + 1, t + hours 1)"
      by (simp add: d1_def)
    have len: "length (flat_comments d1) = Suc (length (flat_comments d))"
      by (simp add: d1_def save_flat_comment_def)
    from False have k: "5 - k = Suc (5 - (k + 1))" by simp
    from Cons.IH [OF c1 t(2) rest] p len show ?thesis
      unfolding k by (auto simp: s a split: prod.splits)
  qed
qed

text \<open>
  Claim C8, amended. The create-side limit of the flat comments application admits 5
  comment creations per client address per hour: when no live counter is stored for
  the address and valid submissions from it arrive within one hour of the first, the
  first five are accepted and saved, and every further one is refused without saving a
  comment.
\<close>

theorem create_rate_limit:
  assumes "cache_get (rate_cache d) t1 (''comment_rate_limit_'' @ ip) 0 = 0"
      and "validation_errors r1 = []"
      and "\<forall>(t, a, r) \<in> set rest. a = ip \<and> validation_errors r = [] \<and> t1 \<le> t \<and> t < t1 + hours 1"
  shows "snd (serve d ((t1, ip, r1) # rest))
           = replicate (min 5 (Suc (length rest))) True
             @ replicate (Suc (length rest) - 5) False
       \<and> length (flat_comments (fst (serve d ((t1, ip, r1) # rest))))
           = length (flat_comments d) + min 5 (Suc (length rest))"
proof -
  define d1 where "d1 = (save_flat_comment d t1 ip r1)
      \<lparr>rate_cache := cache_set (rate_cache d) t1 (''comment_rate_limit_'' @ ip) 1 3600\<rparr>"
  have p: "post_flat_comment d t1 ip r1 = Inr d1"
    using assms(1,2)
    by (simp add: post_flat_comment_def perform_create_def Let_def d1_def save_flat_comment_def)
  have c1: "rate_cache d1 (''comment_rate_limit_'' @ ip) = Some (0 + 1, t1 + hours 1)"
    by (simp add: d1_def cache_set_def hours_def)
  have len: "length (flat_comments d1) = Suc (length (flat_comments d))"
    by (simp add: d1_def save_flat_comment_def)
  from assms(3)
  have rest: "\<forall>(t, a, r) \<in> set rest. a = ip \<and> validation_errors r = []
                \<and> t < t1 + hours 1 \<and> t1 + hours 1 \<le> t + hours 1"
    by auto
  from serve_limited [OF c1 order_refl rest] p len show ?thesis
    by (auto split: prod.splits)
qed

theorem create_rate_limit_witness:
  "snd (serve sample_flat_db six_submissions) = [True, True, True, True, True, False]
   \<and> length (flat_comments (fst (serve sample_flat_db six_submissions))) = 6"
proof -
  have h1: "cache_get (rate_cache sample_flat_db) (minutes 0)
              (''comment_rate_limit_'' @ ''10.0.0.1'') 0 = 0"
    by (simp add: cache_get_def sample_flat_db_def)
  have h2: "validation_errors sample_flat_request = []"
    by (simp add: sample_flat_request_def)
  have h3: "\<forall>(t, a, r) \<in> set (submissions_at [1, 2, 3, 4, 5]).
              a = ''10.0.0.1'' \<and> validation_errors r = []
              \<and> minutes 0 \<le> t \<and> t < minutes 0 + hours 1"
    by (simp add: submissions_at_def sample_flat_request_def minutes_def hours_def)
  have six: "six_submissions
               = (minutes 0, ''10.0.0.1'', sample_flat_request) # submissions_at [1, 2, 3, 4, 5]"
    by (simp add: six_submissions_def submissions_at_def)
  have len: "length (submissions_at [1, 2, 3, 4, 5]) = 5"
    by (simp add: submissions_at_def)
  from create_rate_limit [OF h1 h2 h3] show ?thesis
    unfolding six len by (simp add: sample_flat_db_def numeral_eq_Suc)
qed

theorem ten_per_hour_counterexample:
  "snd (serve sample_flat_db eleven_submissions)
     = [True, True, True, True, True, False, False, False, False, False, False]
   \<and> snd (serve sample_flat_db eleven_submissions) \<noteq> replicate 10 True @ [False]"
proof -
  have "snd (serve sample_flat_db eleven_submissions)
     = [True, True, True, True, True, False, False, False, False, False, False]"
    by (simp add: eleven_submissions_def submissions_at_def sample_flat_db_def
        sample_flat_request_def post_flat_comment_def perform_create_def cache_get_def
        cache_set_def save_flat_comment_def minutes_def Let_def split: prod.splits)
  then show ?thesis by (simp add: numeral_eq_Suc)
qed


section \<open>Spam score and the moderation sweep\<close>

lemma save_comment_ids: "map comment_id (save_comment rows c) = map comment_id rows"
  by (induction rows) (auto simp: save_comment_def)

lemma fold_save_ids:
  assumes "\<And>c. comment_id (f c) = comment_id c"
  shows "map comment_id (fold (\<lambda>c rows. save_comment rows (f c)) cs rows) = map comment_id rows"
  by (induction cs arbitrary: rows) (simp_all add: save_comment_ids)

lemma fold_save_hides:
  assumes "\<And>c. comment_id (f c) = comment_id c" and "\<And>c. \<not> is_active (f c)"
      and "\<forall>r \<in> set rows. comment_id r \<in> S \<longrightarrow> \<not> is_active r"
  shows "\<forall>r \<in> set (fold (\<lambda>c rows. save_comment rows (f c)) cs rows).
           comment_id r \<in> S \<union> comment_id ` set cs \<longrightarrow> \<not> is_active r"
  using assms(3)
proof (induction cs arbitrary: rows S)
  case Nil
  then show ?case by simp
next
  case (Cons c cs)
  have "\<forall>r \<in> set (save_comment rows (f c)). comment_id r \<in> insert (comment_id c) S \<longrightarrow> \<not> is_active r"
    using Cons.prems assms(1,2) by (auto simp: save_comment_def)
  from Cons.IH [OF this] show ?case by simp
qed

lemma viagra_counts:
  assumes "contains (lower t) ''viagra''"
  shows "keyword_count t \<ge> 1"
  using assms by (simp add: keyword_count_def spam_keywords_def)

lemma caps_ratio_nonneg: "caps_ratio t \<ge> 0"
  by (simp add: caps_ratio_def)

text \<open>
  Claim C7, amended. For a comment text that contains the keyword "viagra" (in any
  letter case) and at least 9 occurrences of the substring "http",
  \<^verbatim>\<open>get_spam_score\<close> returns the clamped maximum 100, and the moderation sweep sets
  \<^verbatim>\<open>is_active\<close> of a recent, active, unmoderated comment with that text to false,
  since the score exceeds the threshold 80.
\<close>

theorem link_farm_is_hidden:
  assumes "contains (lower t) ''viagra''" and "count_sub t ''http'' \<ge> 9"
      and "c \<in> set (comment_rows d)" and "comment_text c = t"
      and "is_active c" and "\<not> is_moderated c" and "now \<le> created_at c + hours 1"
  shows "get_spam_score t = 100
       \<and> (\<forall>r \<in> set (comment_rows (fst (detect_and_moderate_spam d now))).
             comment_id r = comment_id c \<longrightarrow> \<not> is_active r)
       \<and> map comment_id (comment_rows (fst (detect_and_moderate_spam d now)))
           = map comment_id (comment_rows d)"
proof -
  let ?hide = "\<lambda>c. c\<lparr>is_active := False, is_moderated := True, moderated_at := Some now\<rparr>"
  let ?spam = "filter (\<lambda>c. get_spam_score (comment_text c) > 80)
                 (filter (\<lambda>c. is_active c \<and> \<not> is_moderated c \<and> now \<le> created_at c + hours 1)
                    (comment_rows d))"
  have k: "(15::rat) \<le> of_nat (keyword_count t * 15)"
  proof -
    from viagra_counts [OF assms(1)] have "15 \<le> keyword_count t * 15" by simp
    then have "(of_nat 15 :: rat) \<le> of_nat (keyword_count t * 15)"
      by (simp only: of_nat_le_iff)
    then show ?thesis by simp
  qed
  have u: "(90::rat) \<le> of_nat (count_sub t ''http'' * 10)"
  proof -
    from assms(2) have "90 \<le> count_sub t ''http'' * 10" by simp
    then have "(of_nat 90 :: rat) \<le> of_nat (count_sub t ''http'' * 10)"
      by (simp only: of_nat_le_iff)
    then show ?thesis by simp
  qed
  have "(100::rat) \<le> of_nat (keyword_count t * 15) + of_nat (count_sub t ''http'' * 10)
           + caps_ratio t * 30 + (if length t < 10 \<or> length t > 2000 then 10 else 0)"
    using k u caps_ratio_nonneg [of t] by auto
  then have score: "get_spam_score t = 100"
    by (simp add: get_spam_score_def Let_def min_def)
  have rows: "comment_rows (fst (detect_and_moderate_spam d now))
                = fold (\<lambda>c rows. save_comment rows (?hide c)) ?spam (comment_rows d)"
    by (simp add: detect_and_moderate_spam_def Let_def)
  from assms(3-7) score have "c \<in> set ?spam" by simp
  then have mem: "comment_id c \<in> {} \<union> comment_id ` set ?spam" by blast
  have hid: "\<forall>r \<in> set (fold (\<lambda>c rows. save_comment rows (?hide c)) ?spam (comment_rows d)).
           comment_id r \<in> {} \<union> comment_id ` set ?spam \<longrightarrow> \<not> is_active r"
    by (rule fold_save_hides) simp_all
  have ids: "map comment_id (fold (\<lambda>c rows. save_comment rows (?hide c)) ?spam (comment_rows d))
               = map comment_id (comment_rows d)"
    by (rule fold_save_ids) simp
  have hidden: "\<forall>r \<in> set (comment_rows (fst (detect_and_moderate_spam d now))).
                  comment_id r = comment_id c \<longrightarrow> \<not> is_active r"
  proof (intro ballI impI)
    fix r
    assume r: "r \<in> set (comment_rows (fst (detect_and_moderate_spam d now)))"
      and "comment_id r = comment_id c"
    with mem have "comment_id r \<in> {} \<union> comment_id ` set ?spam" by simp
    with hid r show "\<not> is_active r" unfolding rows by blast
  qed
  from ids have "map comment_id (comment_rows (fst (detect_and_moderate_spam d now)))
                   = map comment_id (comment_rows d)"
    unfolding rows .
  with score hidden show ?thesis by blast
qed

theorem link_farm_is_hidden_witness:
  "contains (lower link_farm_text) ''viagra'' \<and> count_sub link_farm_text ''http'' = 9
   \<and> get_spam_score link_farm_text = 100
   \<and> map comment_id (comment_rows (fst (detect_and_moderate_spam sample_spam_db 5))) = [1, 2]"
proof -
  have h1: "contains (lower link_farm_text) ''viagra''"
    by (simp add: link_farm_text_def lower_def lower_char_def)
  have n: "count_sub link_farm_text ''http'' = 9"
    by (simp add: link_farm_text_def)
  then have h2: "count_sub link_farm_text ''http'' \<ge> 9" by simp
  have h3: "spam_comment 2 link_farm_text \<in> set (comment_rows sample_spam_db)"
    by (simp add: sample_spam_db_def)
  have h4: "comment_text (spam_comment 2 link_farm_text) = link_farm_text"
    and h5: "is_active (spam_comment 2 link_farm_text)"
    and h6: "\<not> is_moderated (spam_comment 2 link_farm_text)"
    and h7: "5 \<le> created_at (spam_comment 2 link_farm_text) + hours 1"
    by (simp_all add: spam_comment_def hours_def)
  from link_farm_is_hidden [OF h1 h2 h3 h4 h5 h6 h7] h1 n show ?thesis
    by (simp add: sample_spam_db_def spam_comment_def)
qed

lemma uppercase_has_no_http:
  "list_all isupper t \<Longrightarrow> count_sub t ''http'' = 0"
  by (induction t) (auto simp: isupper_def)

lemma caps_ratio_le_one: "caps_ratio t \<le> 1"
proof -
  have "length (filter isupper t) \<le> max (length t) 1"
    by (simp add: le_max_iff_disj)
  then have "(of_nat (length (filter isupper t)) :: rat) \<le> of_nat (max (length t) 1)"
    by (simp only: of_nat_le_iff)
  moreover have "(0::rat) < of_nat (max (length t) 1)"
    by (simp only: of_nat_0_less_iff)
  ultimately show ?thesis
    unfolding caps_ratio_def by (simp only: divide_le_eq_1_pos)
qed

lemma one_keyword_three_links_not_clamped:
  assumes "keyword_count t = 1" and "count_sub t ''http'' = 3"
  shows "get_spam_score t \<le> 85"
  using assms caps_ratio_le_one [of t]
  by (simp add: get_spam_score_def Let_def min_def)

theorem shouted_viagra_counterexample:
  "contains (lower shouted_text) ''viagra''
   \<and> count_sub (lower shouted_text) ''http'' = 3
   \<and> list_all isupper shouted_text
   \<and> count_sub shouted_text ''http'' = 0
   \<and> get_spam_score shouted_text = 45
   \<and> map is_active (comment_rows (fst (detect_and_moderate_spam sample_spam_db 5))) = [True, False]"
proof -
  have s1: "get_spam_score shouted_text = 45"
    by (simp add: get_spam_score_def keyword_count_def spam_keywords_def lower_def
        lower_char_def caps_ratio_def isupper_def shouted_text_def)
  have s2: "get_spam_score link_farm_text = 100"
    by (simp add: get_spam_score_def keyword_count_def spam_keywords_def lower_def
        lower_char_def caps_ratio_def isupper_def link_farm_text_def)
  have sweep: "map is_active (comment_rows (fst (detect_and_moderate_spam sample_spam_db 5)))
                 = [True, False]"
    by (simp add: detect_and_moderate_spam_def sample_spam_db_def spam_comment_def s1 s2
        hours_def save_comment_def Let_def)
  have "contains (lower shouted_text) ''viagra''"
    and "count_sub (lower shouted_text) ''http'' = 3"
    and "list_all isupper shouted_text"
    and "count_sub shouted_text ''http'' = 0"
    by (simp_all add: shouted_text_def lower_def lower_char_def isupper_def)
  with s1 sweep show ?thesis by simp
qed


section \<open>The sanitizer\<close>

text \<open>
  What \<^verbatim>\<open>sanitize_text\<close> returns beyond the choice between its two branches is decided
  by \<^verbatim>\<open>bleach.clean\<close> and \<^verbatim>\<open>strip_tags\<close>, which are parameters here; the results
  of this section are about the validity check, which is the repository's own code.
  A text in which the regular expression finds no tag passes the check.
\<close>

lemma tagless_is_valid: "scan_tags t = [] \<Longrightarrow> is_valid_xhtml t"
  by (simp add: is_valid_xhtml_def re_findall_def)

text \<open>
  The self-closing test of the validity check reads the first occurrence of the tag
  name in the whole text, in lower case, not the tag at hand.
\<close>

lemma validity_check_samples:
  "is_valid_xhtml ''<a href=u>link</a> and <i>text</i>''"
  "\<not> is_valid_xhtml ''<i><strong>crossed</i></strong>''"
  "is_valid_xhtml ''line<br/>break''"
  "\<not> is_valid_xhtml ''line<BR/>break''"
  "is_valid_xhtml ''<i/><i>never closed''"
  by code_simp+


lemma startswith_append: "startswith (k @ ys) k"
  by (induction k) auto

lemma contains_append_left: "contains t k \<Longrightarrow> contains (xs @ t) k"
  by (induction xs) auto

lemma contains_middle: "contains (xs @ k @ ys) k"
proof -
  have "contains (k @ ys) k"
  proof (cases "k @ ys")
    case Nil
    then show ?thesis by simp
  next
    case (Cons c t)
    with startswith_append [of k ys] show ?thesis by simp
  qed
  then show ?thesis by (rule contains_append_left)
qed

lemma slice_end_is_inside:
  assumes "endswith (py_slice text a b) suffix"
  shows "contains text suffix"
proof -
  obtain m k where s: "py_slice text a b = take k (drop m text)"
    by (simp add: py_slice_def Let_def)
  from assms have "py_slice text a b
      = take (length (py_slice text a b) - length suffix) (py_slice text a b) @ suffix"
    by (metis append_take_drop_id endswith_def)
  then obtain pre where "take k (drop m text) = pre @ suffix"
    unfolding s by blast
  then have "text = take m text @ suffix @ drop k (drop m text)
               \<or> text = (take m text @ pre) @ suffix @ drop k (drop m text)"
    by (metis append.assoc append_take_drop_id)
  then show ?thesis
    by (metis contains_middle)
qed

text \<open>
  On a text without the sequence \<^verbatim>\<open>/>\<close> the validity check of the code is the
  proper nesting of the tags it finds.
\<close>

lemma validate_tags_is_nesting:
  assumes "\<not> contains text ''/>''"
  shows "validate_tags text tags tag_stack = properly_nested tags tag_stack"
proof (induction tags arbitrary: tag_stack)
  case Nil
  show ?case by simp
next
  case (Cons tag tags)
  obtain is_closing name where tag: "tag = (is_closing, name)" by (cases tag)
  have "\<not> first_is_self_closing text (lower name)"
    using assms slice_end_is_inside unfolding first_is_self_closing_def by blast
  with Cons.IH show ?case
    by (auto simp: tag Let_def split: list.splits)
qed

lemma is_valid_xhtml_is_nesting:
  "\<not> contains text ''/>'' \<Longrightarrow> is_valid_xhtml text = properly_nested (re_findall text) []"
  by (simp add: is_valid_xhtml_def validate_tags_is_nesting)

section \<open>Depth of stored comments\<close>

subsection \<open>The nesting limit\<close>

lemma depth_walk_extend:
  assumes walk: "depth_walk rows q d = Some (Inr k)"
      and ext: "\<And>i c. get_comment rows i = Some c \<Longrightarrow>
                  \<exists>c'. get_comment rows' i = Some c' \<and> parent c' = parent c"
  shows "depth_walk rows' q d = Some (Inr k)"
proof -
  have "(\<forall>i c. get_comment rows i = Some c \<longrightarrow>
            (\<exists>c'. get_comment rows' i = Some c' \<and> parent c' = parent c)) \<longrightarrow>
        (\<forall>k'. Inr k = (Inr k' :: error + nat) \<longrightarrow> depth_walk rows' q d = Some (Inr k'))"
  proof (rule depth_walk.raw_induct
      [where P = "\<lambda>rows q d y.
         (\<forall>i c. get_comment rows i = Some c \<longrightarrow>
            (\<exists>c'. get_comment rows' i = Some c' \<and> parent c' = parent c)) \<longrightarrow>
         (\<forall>k. y = Inr k \<longrightarrow> depth_walk rows' q d = Some (Inr k))", OF _ walk])
    fix walk rows q d y
    assume IH: "\<And>rows q d y. walk rows q d = Some y \<Longrightarrow>
         (\<forall>i c. get_comment rows i = Some c \<longrightarrow>
            (\<exists>c'. get_comment rows' i = Some c' \<and> parent c' = parent c)) \<longrightarrow>
         (\<forall>k. y = Inr k \<longrightarrow> depth_walk rows' q d = Some (Inr k))"
      and step: "(case q of
                    None \<Rightarrow> Some (Inr d)
                  | Some i \<Rightarrow>
                      (case get_comment rows i of
                         None \<Rightarrow> Some (Inl DoesNotExist)
                       | Some pc \<Rightarrow> walk rows (parent pc) (d + 1))) = Some y"
    show "(\<forall>i c. get_comment rows i = Some c \<longrightarrow>
            (\<exists>c'. get_comment rows' i = Some c' \<and> parent c' = parent c)) \<longrightarrow>
         (\<forall>k. y = Inr k \<longrightarrow> depth_walk rows' q d = Some (Inr k))"
    proof (intro allI impI)
      fix k
      assume ext: "\<forall>i c. get_comment rows i = Some c \<longrightarrow>
                    (\<exists>c'. get_comment rows' i = Some c' \<and> parent c' = parent c)"
        and y: "y = Inr k"
      show "depth_walk rows' q d = Some (Inr k)"
      proof (cases q)
        case None
        with step y show ?thesis by simp
      next
        case (Some i)
        with step y obtain pc where pc: "get_comment rows i = Some pc"
          and w: "walk rows (parent pc) (d + 1) = Some (Inr k)"
          by (auto split: option.splits)
        from ext pc obtain c' where c': "get_comment rows' i = Some c'" "parent c' = parent pc"
          by blast
        from IH [OF w] ext have "depth_walk rows' (parent pc) (d + 1) = Some (Inr k)"
          by blast
        with Some c' show ?thesis by simp
      qed
    qed
  qed
  with ext show ?thesis by blast
qed

lemma depth_walk_shift:
  assumes walk: "depth_walk rows q d = Some (Inr k)"
  shows "depth_walk rows q (Suc d) = Some (Inr (Suc k))"
proof -
  have "\<forall>k'. Inr k = (Inr k' :: error + nat) \<longrightarrow> depth_walk rows q (Suc d) = Some (Inr (Suc k'))"
  proof (rule depth_walk.raw_induct
      [where P = "\<lambda>rows q d y.
         \<forall>k. y = Inr k \<longrightarrow> depth_walk rows q (Suc d) = Some (Inr (Suc k))", OF _ walk])
    fix walk rows q d y
    assume IH: "\<And>rows q d y. walk rows q d = Some y \<Longrightarrow>
         \<forall>k. y = Inr k \<longrightarrow> depth_walk rows q (Suc d) = Some (Inr (Suc k))"
      and step: "(case q of
                    None \<Rightarrow> Some (Inr d)
                  | Some i \<Rightarrow>
                      (case get_comment rows i of
                         None \<Rightarrow> Some (Inl DoesNotExist)
                       | Some pc \<Rightarrow> walk rows (parent pc) (d + 1))) = Some y"
    show "\<forall>k. y = Inr k \<longrightarrow> depth_walk rows q (Suc d) = Some (Inr (Suc k))"
    proof (intro allI impI)
      fix k
      assume y: "y = Inr k"
      show "depth_walk rows q (Suc d) = Some (Inr (Suc k))"
      proof (cases q)
        case None
        with step y show ?thesis by simp
      next
        case (Some i)
        with step y obtain pc where pc: "get_comment rows i = Some pc"
          and w: "walk rows (parent pc) (d + 1) = Some (Inr k)"
          by (auto split: option.splits)
        from IH [OF w] have "depth_walk rows (parent pc) (Suc (d + 1)) = Some (Inr (Suc k))"
          by blast
        with Some pc show ?thesis by simp
      qed
    qed
  qed
  then show ?thesis by blast
qed

lemma get_comment_append:
  "get_comment rows i = Some c \<Longrightarrow> get_comment (rows @ extra) i = Some c"
  unfolding get_comment_def by (induction rows) auto

lemma get_comment_save_replies_count:
  "get_comment rows i = Some c \<Longrightarrow>
     \<exists>c'. get_comment (save_replies_count rows p n) i = Some c' \<and> parent c' = parent c"
  unfolding get_comment_def save_replies_count_def
  by (induction rows) (auto split: if_splits)

lemma get_comment_save_other:
  "i \<noteq> comment_id c1 \<Longrightarrow> get_comment (save_comment rows c1) i = get_comment rows i"
  unfolding get_comment_def save_comment_def
  by (induction rows) auto

lemma get_comment_save_same:
  "get_comment rows (comment_id c1) = Some c \<Longrightarrow>
     get_comment (save_comment rows c1) (comment_id c1) = Some c1"
  unfolding get_comment_def save_comment_def
  by (induction rows) (auto split: if_splits)

lemma get_comment_save_comment:
  assumes "get_comment rows i = Some c"
      and "get_comment rows cid = Some c0"
      and "comment_id c1 = cid" and "parent c1 = parent c0"
  shows "\<exists>c'. get_comment (save_comment rows c1) i = Some c' \<and> parent c' = parent c"
proof (cases "i = cid")
  case True
  with assms(1,2) have "c = c0" by simp
  with True assms get_comment_save_same [of rows c1 c0] show ?thesis by auto
next
  case False
  with assms(1,3) get_comment_save_other [of i c1 rows] show ?thesis by auto
qed

lemma depth_bounded_iff:
  "depth_bounded rows \<longleftrightarrow> (\<forall>c \<in> set rows. \<exists>k\<le>3. get_depth rows c = Some (Inr k))"
proof -
  have "(case x of Some (Inr k) \<Rightarrow> k \<le> 3 | _ \<Rightarrow> False) \<longleftrightarrow> (\<exists>k\<le>3. x = Some (Inr k))"
    for x :: "(error + nat) option"
  proof (cases x)
    case None
    then show ?thesis by simp
  next
    case (Some y)
    then show ?thesis by (cases y) auto
  qed
  then show ?thesis
    unfolding depth_bounded_def list_all_iff by simp
qed

lemma get_comment_id: "get_comment rows i = Some c \<Longrightarrow> comment_id c = i"
  unfolding get_comment_def by (induction rows) (auto split: if_splits)

lemma set_save_replies_count:
  "c' \<in> set (save_replies_count rows p n) \<Longrightarrow> \<exists>c \<in> set rows. parent c' = parent c"
  by (auto simp: save_replies_count_def)

text \<open>
  A table that grows by one row and has counters rewritten keeps every depth it had;
  the new row lies one level below its parent.
\<close>

lemma depth_bounded_grows:
  assumes inv: "depth_bounded rows"
      and ext: "\<And>i c. get_comment rows i = Some c \<Longrightarrow>
                  \<exists>c'. get_comment rows' i = Some c' \<and> parent c' = parent c"
      and elems: "\<And>c'. c' \<in> set rows' \<Longrightarrow>
                  (\<exists>c \<in> set rows. parent c' = parent c) \<or> parent c' = new_parent"
      and new: "new_parent = None
                \<or> (\<exists>pc k. new_parent = Some (comment_id pc)
                      \<and> get_comment rows (comment_id pc) = Some pc
                      \<and> get_depth rows pc = Some (Inr k) \<and> k < 3)"
  shows "depth_bounded rows'"
  unfolding depth_bounded_iff
proof
  fix c'
  assume "c' \<in> set rows'"
  from elems [OF this] show "\<exists>k\<le>3. get_depth rows' c' = Some (Inr k)"
  proof
    assume "\<exists>c \<in> set rows. parent c' = parent c"
    then obtain c where c: "c \<in> set rows" "parent c' = parent c" by blast
    with inv obtain k where k: "k \<le> 3" "depth_walk rows (parent c) 0 = Some (Inr k)"
      unfolding depth_bounded_iff get_depth_def by blast
    from depth_walk_extend [OF k(2) ext] c(2) k(1) show ?thesis
      by (auto simp: get_depth_def)
  next
    assume p: "parent c' = new_parent"
    from new show ?thesis
    proof
      assume "new_parent = None"
      with p show ?thesis by (simp add: get_depth_def)
    next
      assume "\<exists>pc k. new_parent = Some (comment_id pc)
                      \<and> get_comment rows (comment_id pc) = Some pc
                      \<and> get_depth rows pc = Some (Inr k) \<and> k < 3"
      then obtain pc k where np: "new_parent = Some (comment_id pc)"
        and pc: "get_comment rows (comment_id pc) = Some pc"
        and k: "depth_walk rows (parent pc) 0 = Some (Inr k)" "k < 3"
        unfolding get_depth_def by blast
      from ext [OF pc] obtain pc' where
        pc': "get_comment rows' (comment_id pc) = Some pc'" "parent pc' = parent pc"
        by blast
      from depth_walk_extend [OF depth_walk_shift [OF k(1)] ext]
      have "depth_walk rows' (parent pc) (Suc 0) = Some (Inr (Suc k))" .
      with p np pc' k(2) show ?thesis
        by (auto simp: get_depth_def)
    qed
  qed
qed

lemma create_rows:
  "comment_rows (fst (create d now r parent_obj)) =
     (case parent_obj of
        None \<Rightarrow> comment_rows d @ [snd (create d now r parent_obj)]
      | Some pc \<Rightarrow>
          save_replies_count
            (save_replies_count (comment_rows d @ [snd (create d now r parent_obj)])
               (comment_id pc)
               (length (filter is_active
                  (replies (comment_rows d @ [snd (create d now r parent_obj)]) (comment_id pc)))))
            (comment_id pc)
            (length (replies
               (save_replies_count (comment_rows d @ [snd (create d now r parent_obj)])
                  (comment_id pc)
                  (length (filter is_active
                     (replies (comment_rows d @ [snd (create d now r parent_obj)])
                        (comment_id pc)))))
               (comment_id pc))))"
  by (simp add: create_def comment_post_save_def Let_def split: option.splits)

lemma create_parent:
  "parent (snd (create d now r parent_obj)) = map_option comment_id parent_obj"
  by (simp add: create_def Let_def)

lemma create_keeps_depth:
  assumes inv: "depth_bounded (comment_rows d)"
      and new: "parent_obj = None
                \<or> (\<exists>pc k. parent_obj = Some pc
                      \<and> get_comment (comment_rows d) (comment_id pc) = Some pc
                      \<and> get_depth (comment_rows d) pc = Some (Inr k) \<and> k < 3)"
  shows "depth_bounded (comment_rows (fst (create d now r parent_obj)))"
proof (rule depth_bounded_grows [OF inv, where new_parent = "map_option comment_id parent_obj"])
  fix i c
  assume g: "get_comment (comment_rows d) i = Some c"
  let ?new = "snd (create d now r parent_obj)"
  from g have a: "get_comment (comment_rows d @ [?new]) i = Some c"
    by (rule get_comment_append)
  show "\<exists>c'. get_comment (comment_rows (fst (create d now r parent_obj))) i = Some c'
               \<and> parent c' = parent c"
  proof (cases parent_obj)
    case None
    with a show ?thesis by (simp add: create_rows)
  next
    case (Some pc)
    from get_comment_save_replies_count [OF a] obtain c1 where
      c1: "get_comment (save_replies_count (comment_rows d @ [?new]) (comment_id pc)
             (length (filter is_active (replies (comment_rows d @ [?new]) (comment_id pc))))) i
            = Some c1" "parent c1 = parent c"
      by blast
    from get_comment_save_replies_count [OF c1(1)] c1(2) Some show ?thesis
      unfolding create_rows by (simp only: option.case)
  qed
next
  fix c'
  assume "c' \<in> set (comment_rows (fst (create d now r parent_obj)))"
  then have "\<exists>c \<in> set (comment_rows d @ [snd (create d now r parent_obj)]). parent c' = parent c"
    unfolding create_rows
    by (cases parent_obj) (auto dest!: set_save_replies_count)
  then show "(\<exists>c \<in> set (comment_rows d). parent c' = parent c)
               \<or> parent c' = map_option comment_id parent_obj"
    by (auto simp: create_parent)
next
  from new show "map_option comment_id parent_obj = None
                \<or> (\<exists>pc k. map_option comment_id parent_obj = Some (comment_id pc)
                      \<and> get_comment (comment_rows d) (comment_id pc) = Some pc
                      \<and> get_depth (comment_rows d) pc = Some (Inr k) \<and> k < 3)"
    by auto
qed

lemma post_comment_parent:
  assumes "post_comment d now r = Some (Inr res)"
  shows "\<exists>parent_obj. res = create d now r parent_obj
           \<and> (parent_obj = None
                \<or> (\<exists>pc k. parent_obj = Some pc
                      \<and> get_comment (comment_rows d) (comment_id pc) = Some pc
                      \<and> get_depth (comment_rows d) pc = Some (Inr k) \<and> k < 3))"
proof -
  from assms obtain parent_obj where tiv: "to_internal_value d now r = Inr parent_obj"
    and v: "validate d r parent_obj = Some (Inr ())"
    and res: "res = create d now r parent_obj"
    by (auto simp: post_comment_def split: sum.splits option.splits)
  show ?thesis
  proof (cases parent_obj)
    case None
    with res show ?thesis by blast
  next
    case (Some pc)
    from tiv Some have "\<exists>p. get_comment (comment_rows d) p = Some pc"
      by (auto simp: to_internal_value_def Let_def split: option.splits if_splits)
    then obtain p where p: "get_comment (comment_rows d) p = Some pc" ..
    with get_comment_id [OF p] have g: "get_comment (comment_rows d) (comment_id pc) = Some pc"
      by simp
    from v Some have "can_reply (comment_rows d) pc = Some (Inr True)"
      by (auto simp: validate_def Let_def split: sum.splits option.splits bool.splits if_splits)
    then obtain y where y: "get_depth (comment_rows d) pc = Some y"
      "map_sum id (\<lambda>d. d < 3) y = Inr True"
      by (auto simp: can_reply_def)
    then obtain k where "get_depth (comment_rows d) pc = Some (Inr k)" "k < 3"
      by (cases y) auto
    with Some g res show ?thesis by blast
  qed
qed

lemma post_comment_keeps_depth:
  assumes "post_comment d now r = Some (Inr (d', c))" and "depth_bounded (comment_rows d)"
  shows "depth_bounded (comment_rows d')"
proof -
  from post_comment_parent [OF assms(1)] obtain parent_obj where
    res: "(d', c) = create d now r parent_obj"
    and new: "parent_obj = None
                \<or> (\<exists>pc k. parent_obj = Some pc
                      \<and> get_comment (comment_rows d) (comment_id pc) = Some pc
                      \<and> get_depth (comment_rows d) pc = Some (Inr k) \<and> k < 3)"
    by blast
  from create_keeps_depth [OF assms(2) new, of now r] res show ?thesis
    by (metis fst_conv)
qed

lemma mark_comment_as_spam_keeps_depth:
  assumes "depth_bounded (comment_rows d)"
  shows "depth_bounded (comment_rows (fst (mark_comment_as_spam d now cid moderator)))"
proof (cases "get_comment (comment_rows d) cid")
  case None
  with assms show ?thesis by (simp add: mark_comment_as_spam_def)
next
  case (Some c0)
  let ?c1 = "c0\<lparr>is_active := False, is_moderated := True,
                 moderated_by := moderator, moderated_at := Some now\<rparr>"
  have rows: "comment_rows (fst (mark_comment_as_spam d now cid moderator))
                = save_comment (comment_rows d) ?c1"
    using Some by (simp add: mark_comment_as_spam_def)
  show ?thesis
    unfolding rows
  proof (rule depth_bounded_grows [OF assms, where new_parent = None])
    fix i c
    assume "get_comment (comment_rows d) i = Some c"
    from get_comment_save_comment [OF this Some, of ?c1] get_comment_id [OF Some]
    show "\<exists>c'. get_comment (save_comment (comment_rows d) ?c1) i = Some c'
                 \<and> parent c' = parent c"
      by simp
  next
    fix c'
    assume "c' \<in> set (save_comment (comment_rows d) ?c1)"
    then have "c' = ?c1 \<or> c' \<in> set (comment_rows d)"
      by (auto simp: save_comment_def split: if_splits)
    moreover have "c0 \<in> set (comment_rows d)"
      using Some unfolding get_comment_def by (auto simp: find_Some_iff)
    moreover have "parent ?c1 = parent c0" by simp
    ultimately have "\<exists>c \<in> set (comment_rows d). parent c' = parent c"
      by metis
    then show "(\<exists>c \<in> set (comment_rows d). parent c' = parent c) \<or> parent c' = None" ..
  next
    show "None = None \<or> (\<exists>pc k. None = Some (comment_id pc)
            \<and> get_comment (comment_rows d) (comment_id pc) = Some pc
            \<and> get_depth (comment_rows d) pc = Some (Inr k) \<and> k < 3)"
      by simp
  qed
qed

lemma apply_operation_keeps_depth:
  assumes "apply_operation d x = Some d'" and "depth_bounded (comment_rows d)"
  shows "depth_bounded (comment_rows d')"
proof (cases x)
  case (PostComment now r)
  with assms show ?thesis
    by (auto split: option.splits sum.splits dest: post_comment_keeps_depth)
next
  case (PostReply now pid r)
  with assms show ?thesis
    by (auto split: option.splits sum.splits
        dest!: post_reply_success dest: post_comment_keeps_depth)
next
  case (GenerateCaptcha now num1 num2 token ip)
  with assms show ?thesis
    by (auto simp: generate_captcha_def Let_def split: option.splits)
next
  case (CleanupCaptchas now)
  with assms show ?thesis
    by (auto simp: cleanup_expired_captchas_def)
next
  case (MarkAsSpam now cid moderator)
  with assms mark_comment_as_spam_keeps_depth [OF assms(2), of now cid moderator]
  show ?thesis by auto
qed

text \<open>
  Every table reached from one that respects the nesting limit respects it: the depth
  walk of every stored comment returns, and with at most 3.
\<close>

lemma run_keeps_depth:
  assumes "run d xs = Some d'" and "depth_bounded (comment_rows d)"
  shows "depth_bounded (comment_rows d')"
  using assms
proof (induction xs arbitrary: d)
  case Nil
  then show ?case by simp
next
  case (Cons x xs)
  from Cons.prems(1) obtain d1 where step: "apply_operation d x = Some d1"
    and rest: "run d1 xs = Some d'"
    by (auto split: option.splits)
  from Cons.IH [OF rest apply_operation_keeps_depth [OF step Cons.prems(2)]]
  show ?case .
qed

text \<open>Both endpoints refuse a parent at the nesting limit.\<close>

lemma depth_limit_enforced:
  assumes "get_depth (comment_rows d) pc = Some (Inr k)" and "3 \<le> k"
  shows "get_comment (comment_rows d) p = Some pc \<Longrightarrow> req_parent r = Some p
           \<Longrightarrow> \<exists>e. post_comment d now r = Some (Inl e)"
    and "find (\<lambda>c. comment_id c = p \<and> is_active c) (comment_rows d) = Some pc
           \<Longrightarrow> post_reply d now p r
                 = Some (Inl (BadRequest
                      ''Cannot reply to this comment (max nesting level reached)''))"
  using assms
  by (auto simp: post_comment_def post_reply_def to_internal_value_def validate_def
      can_reply_def Let_def split: sum.splits option.splits)

end
